theory Spec2Isabelle
  imports Complex_Main
begin

section \<open>Values of the notebook\<close>

text \<open>
  The notebook \<^verbatim>\<open>sr15_2.3.3_global_emissions_statistics.ipynb\<close> works on
  tables of emission values read from a spreadsheet. A value is a Python float
  that is either a number or NaN (a missing entry); a number is a double and
  is taken as the real it is, and the tables hold no infinite entry. Years are
  the column labels of a table, Python integers within 64 bits. The threshold
  is a number (the notebook passes 0).
\<close>

type_synonym pyfloat = "real option"

datatype py_error =
  ValueError | ZeroDivisionError | OverflowError | KeyError | NotImplementedError

text \<open>
  What \<^verbatim>\<open>year_of_net_zero\<close> returns: the integer
  \<^verbatim>\<open>prev_yr + int(...) + 1\<close>, or \<^verbatim>\<open>np.inf\<close>. A sum
  with a NaN \<^verbatim>\<open>prev_yr\<close> would be the float NaN.
\<close>

datatype net_zero = Year int | PosInf | NaNYear

subsection \<open>Double precision\<close>

text \<open>
  The subtractions and divisions of \<^verbatim>\<open>year_of_net_zero\<close> are operations
  on doubles (IEEE 754 binary64) and round their exact result to the nearest
  double, a tie going to the double with the even significand. The result of
  an operation is a number or an infinity, \<open>None\<close> standing for NaN. Both
  zeros are the number 0: the code never tells them apart, since a division
  by either raises.
\<close>

datatype xreal = Fin real | PInf | NInf

type_synonym xfloat = "xreal option"

text \<open>The integer nearest to a real, the even one of two that are equally near.\<close>

definition round_half_even :: "real \<Rightarrow> int" where
  "round_half_even r =
     (if r - of_int \<lfloor>r\<rfloor> < 1 / 2 then \<lfloor>r\<rfloor>
      else if 1 / 2 < r - of_int \<lfloor>r\<rfloor> then \<lfloor>r\<rfloor> + 1
      else if even \<lfloor>r\<rfloor> then \<lfloor>r\<rfloor> else \<lfloor>r\<rfloor> + 1)"

text \<open>
  The exponent of the last place of the doubles around \<open>x\<close>: 52 binary
  places below the leading bit of \<open>x\<close>, and \<open>-1074\<close> throughout the subnormal
  range.
\<close>

definition ulp_exponent :: "real \<Rightarrow> int" where
  "ulp_exponent x =
     (if x = 0 then - 1074 else max \<lfloor>log 2 \<bar>x\<bar>\<rfloor> (- 1022) - 52)"

text \<open>Rounding to nearest with an unbounded exponent range.\<close>

definition nearest :: "real \<Rightarrow> real" where
  "nearest x = of_int (round_half_even (x / 2 powi ulp_exponent x)) * 2 powi ulp_exponent x"

text \<open>
  The double that an exact result becomes: an infinity when the rounded
  magnitude reaches \<open>2 ^ 1024\<close>.
\<close>

definition fl :: "real \<Rightarrow> xreal" where
  "fl x =
     (if 2 ^ 1024 \<le> nearest x then PInf
      else if nearest x \<le> - (2 ^ 1024) then NInf
      else Fin (nearest x))"

text \<open>
  The double a decimal literal of Python denotes, such as \<^verbatim>\<open>0.3\<close>
  (for literals within the range of the doubles).
\<close>

definition lit :: "real \<Rightarrow> real" where
  "lit x = nearest x"

text \<open>The difference of two doubles.\<close>

definition fsub :: "real \<Rightarrow> real \<Rightarrow> xreal" where
  "fsub a b = fl (a - b)"

text \<open>
  Python's \<^verbatim>\<open>a / b\<close> for floats that are not NaN: it raises on a zero
  divisor, whatever the dividend; an infinity by an infinity is NaN.
\<close>

definition fdiv :: "xreal \<Rightarrow> xreal \<Rightarrow> py_error + xfloat" where
  "fdiv a b =
     (case b of
        Fin s \<Rightarrow>
          if s = 0 then Inl ZeroDivisionError
          else (case a of
                  Fin r \<Rightarrow> Inr (Some (fl (r / s)))
                | PInf \<Rightarrow> Inr (Some (if 0 < s then PInf else NInf))
                | NInf \<Rightarrow> Inr (Some (if 0 < s then NInf else PInf)))
      | _ \<Rightarrow> (case a of Fin r \<Rightarrow> Inr (Some (Fin 0)) | _ \<Rightarrow> Inr None))"

section \<open>Year of net zero\<close>

text \<open>
  \<^verbatim>\<open>x = (val - prev_val) / (yr - prev_yr)\<close>. While
  \<^verbatim>\<open>prev_yr\<close> is still \<^verbatim>\<open>np.nan\<close> the difference of the years
  is NaN and so is \<open>x\<close>; otherwise the difference of the years is an integer,
  which the division converts to the nearest double.
\<close>

definition slope :: "real \<Rightarrow> int option \<Rightarrow> int \<Rightarrow> real \<Rightarrow> py_error + xfloat" where
  "slope prev_val prev_yr yr val =
     (case prev_yr of
        None \<Rightarrow> Inr None
      | Some p \<Rightarrow> fdiv (fsub val prev_val) (Fin (nearest (real_of_int (yr - p)))))"

text \<open>\<^verbatim>\<open>(threshold - prev_val) / x\<close>: NaN for a NaN \<open>x\<close>, an exception for a zero \<open>x\<close>.\<close>

definition crossing_quotient :: "real \<Rightarrow> real \<Rightarrow> xfloat \<Rightarrow> py_error + xfloat" where
  "crossing_quotient threshold prev_val x =
     (case x of
        None \<Rightarrow> Inr None
      | Some s \<Rightarrow> fdiv (fsub threshold prev_val) s)"

text \<open>
  Python's \<^verbatim>\<open>int()\<close> of a float: truncation toward zero,
  \<^verbatim>\<open>ValueError\<close> on NaN and \<^verbatim>\<open>OverflowError\<close> on an infinity.
\<close>

definition py_int :: "xfloat \<Rightarrow> py_error + int" where
  "py_int q =
     (case q of
        None \<Rightarrow> Inl ValueError
      | Some (Fin r) \<Rightarrow> Inr (if 0 \<le> r then \<lfloor>r\<rfloor> else \<lceil>r\<rceil>)
      | Some _ \<Rightarrow> Inl OverflowError)"

text \<open>The body of the branch \<^verbatim>\<open>if val < threshold\<close>.\<close>

definition crossing :: "real \<Rightarrow> int option \<Rightarrow> real \<Rightarrow> int \<Rightarrow> real \<Rightarrow> py_error + net_zero" where
  "crossing prev_val prev_yr threshold yr val =
     (case slope prev_val prev_yr yr val of
        Inl e \<Rightarrow> Inl e
      | Inr x \<Rightarrow>
          (case crossing_quotient threshold prev_val x of
             Inl e \<Rightarrow> Inl e
           | Inr q \<Rightarrow>
               (case py_int q of
                  Inl e \<Rightarrow> Inl e
                | Inr n \<Rightarrow>
                    (case prev_yr of
                       None \<Rightarrow> Inr NaNYear
                     | Some p \<Rightarrow> Inr (Year (p + n + 1))))))"

text \<open>
  The loop \<^verbatim>\<open>for yr, val in zip(years, data)\<close>, with the two local
  variables as arguments.
\<close>

fun net_zero_loop :: "real \<Rightarrow> int option \<Rightarrow> real \<Rightarrow> (int \<times> pyfloat) list \<Rightarrow> py_error + net_zero" where
  "net_zero_loop prev_val prev_yr threshold [] = Inr PosInf"
| "net_zero_loop prev_val prev_yr threshold ((yr, val) # rest) =
     (case val of
        None \<Rightarrow> net_zero_loop prev_val prev_yr threshold rest
      | Some v \<Rightarrow>
          if v < threshold then crossing prev_val prev_yr threshold yr v
          else net_zero_loop v (Some yr) threshold rest)"

definition year_of_net_zero :: "pyfloat list \<Rightarrow> int list \<Rightarrow> real \<Rightarrow> py_error + net_zero" where
  "year_of_net_zero data years threshold = net_zero_loop 0 None threshold (zip years data)"

text \<open>
  The state of the loop made visible: the values of \<^verbatim>\<open>prev_val\<close> and
  \<^verbatim>\<open>prev_yr\<close> at the head of every iteration that is run.
\<close>

fun loop_states :: "real \<Rightarrow> int option \<Rightarrow> real \<Rightarrow> (int \<times> pyfloat) list \<Rightarrow> (real \<times> int option) list" where
  "loop_states prev_val prev_yr threshold [] = []"
| "loop_states prev_val prev_yr threshold ((yr, val) # rest) =
     (prev_val, prev_yr) #
     (case val of
        None \<Rightarrow> loop_states prev_val prev_yr threshold rest
      | Some v \<Rightarrow>
          if v < threshold then []
          else loop_states v (Some yr) threshold rest)"

text \<open>
  The iteration that takes the branch \<^verbatim>\<open>if val < threshold\<close>, if there is
  one: \<^verbatim>\<open>prev_val\<close>, \<^verbatim>\<open>prev_yr\<close>, \<^verbatim>\<open>yr\<close> and
  \<^verbatim>\<open>val\<close> there.
\<close>

fun crossing_at :: "real \<Rightarrow> int option \<Rightarrow> real \<Rightarrow> (int \<times> pyfloat) list \<Rightarrow> (real \<times> int option \<times> int \<times> real) option" where
  "crossing_at prev_val prev_yr threshold [] = None"
| "crossing_at prev_val prev_yr threshold ((yr, val) # rest) =
     (case val of
        None \<Rightarrow> crossing_at prev_val prev_yr threshold rest
      | Some v \<Rightarrow>
          if v < threshold then Some (prev_val, prev_yr, yr, v)
          else crossing_at v (Some yr) threshold rest)"

text \<open>The pairs of a series that carry a value.\<close>

definition present :: "(int \<times> pyfloat) list \<Rightarrow> (int \<times> pyfloat) list" where
  "present ps = filter (\<lambda>p. snd p \<noteq> None) ps"

subsection \<open>The crossing search as the specification words it\<close>

text \<open>
  The reference search of the specification (section 4.1, item 3), written from
  its words and not from the code: the pairs are taken in increasing year
  order, missing values are skipped, the previous value starts at 0 and the
  previous year starts undefined; at the first value below the threshold the
  result is \<open>prev_year + floor ((threshold - prev_value) / slope) + 1\<close> with
  \<open>slope = (value - prev_value) / (year - prev_year)\<close>; a series that is
  exhausted gives positive infinity. With an undefined previous year, or a
  slope that does not exist or is zero, the result is undefined.
\<close>

datatype spec_outcome = Crossing int | Never | Undefined

fun spec_search :: "real \<Rightarrow> int option \<Rightarrow> real \<Rightarrow> (int \<times> pyfloat) list \<Rightarrow> spec_outcome" where
  "spec_search prev_value prev_year threshold [] = Never"
| "spec_search prev_value prev_year threshold ((year, val) # rest) =
     (case val of
        None \<Rightarrow> spec_search prev_value prev_year threshold rest
      | Some v \<Rightarrow>
          if v < threshold then
            (case prev_year of
               None \<Rightarrow> Undefined
             | Some p \<Rightarrow>
                 if year = p \<or> v = prev_value then Undefined
                 else Crossing (p + \<lfloor>(threshold - prev_value) /
                        ((v - prev_value) / real_of_int (year - p))\<rfloor> + 1))
          else spec_search v (Some year) threshold rest)"

definition spec_year_of_net_zero :: "(int \<times> pyfloat) list \<Rightarrow> real \<Rightarrow> spec_outcome" where
  "spec_year_of_net_zero series threshold = spec_search 0 None threshold (sort_key fst series)"

text \<open>
  The same search with its slope and its quotient computed in doubles, as a
  program that follows the specification computes them. Where the slope is no
  number other than zero, or the quotient is no number, the result is
  undefined.
\<close>

fun spec_search_double :: "real \<Rightarrow> int option \<Rightarrow> real \<Rightarrow> (int \<times> pyfloat) list \<Rightarrow> spec_outcome" where
  "spec_search_double prev_value prev_year threshold [] = Never"
| "spec_search_double prev_value prev_year threshold ((year, val) # rest) =
     (case val of
        None \<Rightarrow> spec_search_double prev_value prev_year threshold rest
      | Some v \<Rightarrow>
          if v < threshold then
            (case prev_year of
               None \<Rightarrow> Undefined
             | Some p \<Rightarrow>
                 (case fdiv (fsub v prev_value) (Fin (nearest (real_of_int (year - p)))) of
                    Inr (Some s) \<Rightarrow>
                      (case fdiv (fsub threshold prev_value) s of
                         Inr (Some (Fin q)) \<Rightarrow> Crossing (p + \<lfloor>q\<rfloor> + 1)
                       | _ \<Rightarrow> Undefined)
                  | _ \<Rightarrow> Undefined))
          else spec_search_double v (Some year) threshold rest)"

definition spec_year_of_net_zero_double :: "(int \<times> pyfloat) list \<Rightarrow> real \<Rightarrow> spec_outcome" where
  "spec_year_of_net_zero_double series threshold =
     spec_search_double 0 None threshold (sort_key fst series)"

text \<open>
  The year of the interpolation formula in exact arithmetic:
  \<open>prev_year + floor ((threshold - prev_value) / slope) + 1\<close> with
  \<open>slope = (v - prev_value) / (y - prev_year)\<close>.
\<close>

definition interpolated_year :: "int \<Rightarrow> real \<Rightarrow> int \<Rightarrow> real \<Rightarrow> real \<Rightarrow> int" where
  "interpolated_year prev_year prev_value y v threshold =
     prev_year +
     \<lfloor>(threshold - prev_value) / ((v - prev_value) / real_of_int (y - prev_year))\<rfloor> + 1"

text \<open>How a result of the code reads as an outcome of the reference search.\<close>

fun as_outcome :: "py_error + net_zero \<Rightarrow> spec_outcome" where
  "as_outcome (Inl e) = Undefined"
| "as_outcome (Inr (Year y)) = Crossing y"
| "as_outcome (Inr PosInf) = Never"
| "as_outcome (Inr NaNYear) = Undefined"

text \<open>The year of the first value that is present and below the threshold.\<close>

fun first_below :: "real \<Rightarrow> (int \<times> pyfloat) list \<Rightarrow> int option" where
  "first_below threshold [] = None"
| "first_below threshold ((year, val) # rest) =
     (case val of
        None \<Rightarrow> first_below threshold rest
      | Some v \<Rightarrow> if v < threshold then Some year else first_below threshold rest)"

text \<open>
  The year of the last value that is present and at or above the threshold
  before the first one below it; the first argument is the latest such year
  seen so far.
\<close>

fun last_above :: "int option \<Rightarrow> real \<Rightarrow> (int \<times> pyfloat) list \<Rightarrow> int option" where
  "last_above seen threshold [] = seen"
| "last_above seen threshold ((year, val) # rest) =
     (case val of
        None \<Rightarrow> last_above seen threshold rest
      | Some v \<Rightarrow> if v < threshold then seen else last_above (Some year) threshold rest)"

section \<open>Tables and derived series\<close>

text \<open>
  A table of time series as \<^verbatim>\<open>add_statistics\<close> receives it (a pandas
  DataFrame): the year columns in order and one row per scenario, a row giving
  each year its value. \<open>None\<close> is a NaN entry.
\<close>

record 'k dataframe =
  columns :: "int list"
  rows :: "('k \<times> (int \<rightharpoonup> real)) list"

text \<open>
  An entry of a float series the notebook computes and hands to the statistics:
  a number, an infinity (\<^verbatim>\<open>np.inf\<close> of \<^verbatim>\<open>year_of_net_zero\<close>, or a
  numpy division by zero) or NaN.
\<close>

datatype series_value = Number real | PlusInf | MinusInf | Missing

definition of_float :: "pyfloat \<Rightarrow> series_value" where
  "of_float x = (case x of None \<Rightarrow> Missing | Some a \<Rightarrow> Number a)"

definition of_year :: "net_zero \<Rightarrow> series_value" where
  "of_year y = (case y of Year n \<Rightarrow> Number (real_of_int n) | PosInf \<Rightarrow> PlusInf | NaNYear \<Rightarrow> Missing)"

text \<open>\<^verbatim>\<open>data[j]\<close>: the column of year \<open>j\<close>, or \<^verbatim>\<open>KeyError\<close>.\<close>

definition getitem :: "'k dataframe \<Rightarrow> int \<Rightarrow> py_error + ('k \<times> pyfloat) list" where
  "getitem data j =
     (if j \<in> set (columns data) then Inr (map (\<lambda>(k, r). (k, r j)) (rows data))
      else Inl KeyError)"

text \<open>\<^verbatim>\<open>data[years]\<close>: the table restricted to the listed columns.\<close>

definition getitems :: "'k dataframe \<Rightarrow> int list \<Rightarrow> py_error + 'k dataframe" where
  "getitems data years =
     (if list_all (\<lambda>y. y \<in> set (columns data)) years then Inr (data\<lparr>columns := years\<rparr>)
      else Inl KeyError)"

text \<open>
  The difference of two columns of one table, entry by entry; NaN where either
  entry is NaN. For the annual change the difference and the quotient below
  are taken exactly: the double that pandas computes is the exact value
  rounded in each of the two operations.
\<close>

definition series_sub :: "('k \<times> pyfloat) list \<Rightarrow> ('k \<times> pyfloat) list \<Rightarrow> ('k \<times> pyfloat) list" where
  "series_sub xs ys =
     map2 (\<lambda>(k, x) (_, y). (k, case (x, y) of (Some a, Some b) \<Rightarrow> Some (a - b) | _ \<Rightarrow> None))
       xs ys"

text \<open>
  A series divided by a Python integer. numpy does not raise on a zero
  divisor: the entry becomes an infinity, or NaN for \<open>0 / 0\<close>.
\<close>

definition series_div :: "('k \<times> pyfloat) list \<Rightarrow> int \<Rightarrow> ('k \<times> series_value) list" where
  "series_div xs n =
     map (\<lambda>(k, x). (k,
       case x of
         None \<Rightarrow> Missing
       | Some a \<Rightarrow>
           if n = 0 then (if a = 0 then Missing else if 0 < a then PlusInf else MinusInf)
           else Number (a / real_of_int n))) xs"

text \<open>\<^verbatim>\<open>abs_ann_change = (data[j] - data[i]) / (j - i)\<close>\<close>

definition abs_ann_change :: "'k dataframe \<Rightarrow> int \<Rightarrow> int \<Rightarrow> py_error + ('k \<times> series_value) list" where
  "abs_ann_change data i j =
     (case getitem data j of
        Inl e \<Rightarrow> Inl e
      | Inr dj \<Rightarrow>
          (case getitem data i of
             Inl e \<Rightarrow> Inl e
           | Inr di \<Rightarrow> Inr (series_div (series_sub dj di) (j - i))))"

text \<open>
  \<^verbatim>\<open>data.apply(year_of_net_zero, years=data.columns, threshold=0, axis=1)\<close>:
  one call per row; an exception of a call ends the whole.
\<close>

fun apply_year_of_net_zero :: "int list \<Rightarrow> ('k \<times> (int \<rightharpoonup> real)) list \<Rightarrow> py_error + ('k \<times> net_zero) list" where
  "apply_year_of_net_zero cols [] = Inr []"
| "apply_year_of_net_zero cols ((k, r) # rest) =
     (case year_of_net_zero (map r cols) cols 0 of
        Inl e \<Rightarrow> Inl e
      | Inr y \<Rightarrow>
          (case apply_year_of_net_zero cols rest of
             Inl e \<Rightarrow> Inl e
           | Inr ys \<Rightarrow> Inr ((k, y) # ys)))"

section \<open>The statistics of the cohorts\<close>

text \<open>
  The sub-header of a cell: a year column of \<^verbatim>\<open>data[years]\<close>, the text
  \<^verbatim>\<open>'{}-{}'.format(i, j)\<close> of a pair of years, or a fixed text.
\<close>

datatype subheader = Sub_year int | Sub_change int int | Sub_label string

text \<open>A cell is found by cohort, row, header and sub-header.\<close>

type_synonym cell_key = "string \<times> string \<times> string \<times> subheader"

text \<open>
  Modelled from the spec: \<^verbatim>\<open>pyam.Statistics\<close>, the cohort aggregator, is a
  library that is not part of the repository. Following section 3 and
  section 4.2 of the specification it is an accumulator that holds, for every
  cell, the per-scenario values added to it; a cohort is a name with the
  categories that belong to it (the \<^verbatim>\<open>filters\<close> of the notebook).
\<close>

record 'k statistics =
  category :: "'k \<rightharpoonup> string"
  filters :: "(string \<times> string list) list"
  cells :: "cell_key \<rightharpoonup> ('k \<times> series_value) list"

text \<open>
  Modelled from the spec: a scenario belongs to every cohort that lists its
  category, so it may be counted in several cohorts or in none.
\<close>

definition in_cohort :: "('k \<rightharpoonup> string) \<Rightarrow> string list \<Rightarrow> 'k \<Rightarrow> bool" where
  "in_cohort cat cats k = (case cat k of None \<Rightarrow> False | Some c \<Rightarrow> c \<in> set cats)"

text \<open>
  Modelled from the spec: \<^verbatim>\<open>stats.add(data, header=..., row=..., subheader=...)\<close>
  gives each cohort the values of its scenarios under the header and
  sub-header of the call. A later addition to the same cell replaces the
  earlier one.
\<close>

definition stats_add :: "('k \<times> series_value) list \<Rightarrow> string \<Rightarrow> string \<Rightarrow> subheader \<Rightarrow> 'k statistics \<Rightarrow> 'k statistics" where
  "stats_add series header row sub stats =
     stats\<lparr>cells :=
       fold (\<lambda>(name, cats) m.
              m((name, row, header, sub) \<mapsto> filter (\<lambda>(k, v). in_cohort (category stats) cats k) series))
         (filters stats) (cells stats)\<rparr>"

text \<open>
  Modelled from the spec: adding a table (\<^verbatim>\<open>stats.add(data[years], ...)\<close>)
  adds each of its year columns under the year as sub-header.
\<close>

definition stats_add_frame :: "'k dataframe \<Rightarrow> string \<Rightarrow> string \<Rightarrow> 'k statistics \<Rightarrow> 'k statistics" where
  "stats_add_frame data header row stats =
     fold (\<lambda>y. stats_add (map (\<lambda>(k, r). (k, of_float (r y))) (rows data)) header row (Sub_year y))
       (columns data) stats"

text \<open>
  Modelled from the spec: the statistic of a cell is taken over the values that
  are not missing, and the count of the cell is their number (section 4.2:
  missing values are excluded from the statistic, the count includes only
  non-missing contributions).
\<close>

definition contributing :: "('k \<times> series_value) list \<Rightarrow> series_value list" where
  "contributing xs = filter (\<lambda>v. v \<noteq> Missing) (map snd xs)"

definition cell_count :: "('k \<times> series_value) list \<Rightarrow> nat" where
  "cell_count xs = length (contributing xs)"

text \<open>
  \<^verbatim>\<open>pyam.Statistics(df=df, filters=[...], rows=True)\<close> of the notebook. The
  list \<^verbatim>\<open>cats_15_no_lo\<close> is read from a file of the repository that is not
  among the sources, so it is an argument.
\<close>

definition notebook_filters :: "string list \<Rightarrow> (string \<times> string list) list" where
  "notebook_filters cats_15_no_lo =
     [(''below 1.5'', [''Below 1.5C'']),
      (''lo os 1.5'', [''1.5C low overshoot'']),
      (''no & lo os 1.5'', cats_15_no_lo),
      (''hi os 1.5'', [''1.5C high overshoot'']),
      (''lower 2.0'', [''Lower 2C'']),
      (''higher 2.0'', [''Higher 2C'']),
      (''lower 2.5'', [''Lower 2.5C'']),
      (''lower 3.0'', [''Lower 3C''])]"

definition new_statistics :: "('k \<rightharpoonup> string) \<Rightarrow> string list \<Rightarrow> 'k statistics" where
  "new_statistics cat cats_15_no_lo =
     \<lparr>category = cat, filters = notebook_filters cats_15_no_lo, cells = Map.empty\<rparr>"

subsection \<open>add_statistics\<close>

text \<open>The loop \<^verbatim>\<open>for i, j in compare_years\<close>.\<close>

fun add_changes :: "'k dataframe \<Rightarrow> string \<Rightarrow> string \<Rightarrow> (int \<times> int) list \<Rightarrow> 'k statistics \<Rightarrow> py_error + 'k statistics" where
  "add_changes data row header_change [] stats = Inr stats"
| "add_changes data row header_change ((i, j) # rest) stats =
     (case abs_ann_change data i j of
        Inl e \<Rightarrow> Inl e
      | Inr change \<Rightarrow>
          add_changes data row header_change rest
            (stats_add change header_change row (Sub_change i j) stats))"

text \<open>
  \<^verbatim>\<open>add_statistics\<close> works on the global \<^verbatim>\<open>stats\<close>; here the
  accumulator is an argument and the result.
\<close>

definition add_statistics :: "'k dataframe \<Rightarrow> string \<Rightarrow> int list \<Rightarrow> (int \<times> int) list \<Rightarrow> string \<Rightarrow> string \<Rightarrow> string \<Rightarrow> bool \<Rightarrow> 'k statistics \<Rightarrow> py_error + 'k statistics" where
  "add_statistics data row years compare_years header header_change header_zero add_netzero stats =
     (case getitems data years of
        Inl e \<Rightarrow> Inl e
      | Inr snapshot \<Rightarrow>
          (case add_changes data row header_change compare_years
                  (stats_add_frame snapshot header row stats) of
             Inl e \<Rightarrow> Inl e
           | Inr stats' \<Rightarrow>
               if add_netzero then
                 (case apply_year_of_net_zero (columns data) (rows data) of
                    Inl e \<Rightarrow> Inl e
                  | Inr netzero \<Rightarrow>
                      Inr (stats_add (map (\<lambda>(k, y). (k, of_year y)) netzero) header_zero row
                             (Sub_label ''year'') stats'))
               else Inr stats'))"

subsection \<open>The summary table\<close>

text \<open>
  \<^verbatim>\<open>stats.summarize(center='median', interquartile=True, custom_format='{:.1f}')\<close>.
  The routine belongs to the library \<^verbatim>\<open>pyam\<close>, which is not part of the
  repository. What is modelled of it is what the call and the note above it in
  the notebook say: the range that a cell shows is chosen by the two flags of
  the call (the full range when neither is given), for the whole table at
  once; a range chosen by the number of scenarios of a cell "is currently not
  supported by the \<^verbatim>\<open>pyam.Statistics\<close> module". A cell shows the centre
  and the range, each formatted by \<^verbatim>\<open>custom_format\<close>; a cell without a
  contribution is empty, and a cell with a single one shows the value alone.
\<close>

record summarize_args =
  center :: string
  fullrange :: "bool option"
  interquartile :: "bool option"
  custom_format :: string

datatype range_kind = Full_range | Interquartile_range

datatype cell_text = Blank | Center_only string | Center_and_range string range_kind string

definition range_of :: "summarize_args \<Rightarrow> py_error + range_kind" where
  "range_of a =
     (let full = (if fullrange a = None \<and> interquartile a = None then Some True else fullrange a)
      in if (full = Some True) = (interquartile a = Some True) then Inl NotImplementedError
         else Inr (if full = Some True then Full_range else Interquartile_range))"

definition format_cell :: "summarize_args \<Rightarrow> range_kind \<Rightarrow> ('k \<times> series_value) list \<Rightarrow> cell_text" where
  "format_cell a r xs =
     (if cell_count xs = 0 then Blank
      else if cell_count xs = 1 then Center_only (custom_format a)
      else Center_and_range (center a) r (custom_format a))"

definition summarize :: "summarize_args \<Rightarrow> 'k statistics \<Rightarrow> py_error + (cell_key \<rightharpoonup> cell_text)" where
  "summarize a stats =
     (case range_of a of
        Inl e \<Rightarrow> Inl e
      | Inr r \<Rightarrow> Inr (\<lambda>key. map_option (format_cell a r) (cells stats key)))"

definition notebook_summarize :: "'k statistics \<Rightarrow> py_error + (cell_key \<rightharpoonup> cell_text)" where
  "notebook_summarize stats =
     summarize \<lparr>center = ''median'', fullrange = None, interquartile = Some True,
                custom_format = ''{:.1f}''\<rparr> stats"

subsection \<open>A run of the notebook\<close>

text \<open>
  The tables the notebook draws from the scenario data, and the categories of
  the scenarios.
\<close>

record 'k inputs =
  df_category :: "'k \<rightharpoonup> string"
  cats_15_no_lo :: "string list"
  co2 :: "'k dataframe"
  co2_ene_ind_gross :: "'k dataframe"
  co2_ene_ind :: "'k dataframe"
  co2_afolu :: "'k dataframe"
  ccs_bio :: "'k dataframe"
  ghg :: "'k dataframe"

text \<open>The global variables the cells of the notebook assign.\<close>

record 'k notebook =
  stats :: "'k statistics"
  summary :: "(cell_key \<rightharpoonup> cell_text) option"

definition settings_years :: "int list" where
  "settings_years = [2010, 2020, 2030, 2040, 2050, 2060, 2070, 2080, 2090, 2100]"

definition settings_compare_years :: "(int \<times> int) list" where
  "settings_compare_years = [(2010, 2030), (2020, 2030), (2030, 2050)]"

text \<open>
  The entries \<^verbatim>\<open>years\<close> and \<^verbatim>\<open>compare_years\<close> of
  \<^verbatim>\<open>statistics_settings\<close> are the two lists above; the call is
  \<^verbatim>\<open>add_statistics(data, row, **statistics_settings, add_netzero=...)\<close>.
\<close>

definition add_with_settings :: "'k dataframe \<Rightarrow> string \<Rightarrow> bool \<Rightarrow> 'k statistics \<Rightarrow> py_error + 'k statistics" where
  "add_with_settings data row add_netzero =
     add_statistics data row settings_years settings_compare_years
       ''Annual emissions/sequestration (GtCO2)'' ''Absolute annual change (GtCO2)''
       ''Timing of global zero'' add_netzero"

definition then_do :: "py_error + 'a \<Rightarrow> ('a \<Rightarrow> py_error + 'b) \<Rightarrow> py_error + 'b" where
  "then_do x f = (case x of Inl e \<Rightarrow> Inl e | Inr a \<Rightarrow> f a)"

text \<open>
  The cells of the notebook in order, from the one that creates
  \<^verbatim>\<open>stats\<close> to the one that assigns \<^verbatim>\<open>summary\<close>. The state before
  the run is an argument: it is what an earlier run has left in the session.
\<close>

definition run :: "'k inputs \<Rightarrow> 'k notebook \<Rightarrow> py_error + 'k notebook" where
  "run inp before =
     then_do (Inr (before\<lparr>stats := new_statistics (df_category inp) (cats_15_no_lo inp)\<rparr>)) (\<lambda>nb.
     then_do (add_with_settings (co2 inp) ''Total CO2 (net)'' True (stats nb)) (\<lambda>s1.
     then_do (add_with_settings (co2_ene_ind_gross inp)
                ''CO2 from fossil fuels and industry (gross)'' False s1) (\<lambda>s2.
     then_do (add_with_settings (co2_ene_ind inp)
                ''CO2 from fossil fuels and industry (net)'' False s2) (\<lambda>s3.
     then_do (add_with_settings (co2_afolu inp) ''CO2 from AFOLU'' False s3) (\<lambda>s4.
     then_do (add_with_settings (ccs_bio inp)
                ''Bioenergy combined with carbon capture and storage (BECCS)'' False s4) (\<lambda>s5.
     then_do (add_with_settings (ghg inp) ''Kyoto GHG (AR4, GtCO2e)'' True s5) (\<lambda>s6.
     then_do (notebook_summarize s6) (\<lambda>table.
       Inr (nb\<lparr>stats := s6, summary := Some table\<rparr>)))))))))"

subsection \<open>Closed forms and sample data\<close>

text \<open>
  The entry of \<^verbatim>\<open>abs_ann_change\<close> for one row in closed form; lemma
  \<open>abs_ann_change_rows\<close> derives it from the definition above. For \<open>i = j\<close> the
  two columns are the same one, and the entry is \<open>0 / 0\<close> or NaN.
\<close>

definition row_change :: "(int \<rightharpoonup> real) \<Rightarrow> int \<Rightarrow> int \<Rightarrow> series_value" where
  "row_change r i j =
     (case (r j, r i) of
        (Some b, Some a) \<Rightarrow> if i = j then Missing else Number ((b - a) / real_of_int (j - i))
      | _ \<Rightarrow> Missing)"

text \<open>
  A cell of the cohort "below 1.5" with six scenarios that contribute and one
  that is missing, added through \<^verbatim>\<open>stats.add\<close>.
\<close>

definition six_scenarios :: "(nat \<times> series_value) list" where
  "six_scenarios =
     [(1, Number 2040), (2, Number 2045), (3, Number 2050), (4, Number 2055), (5, PlusInf),
      (6, Number 2060), (7, Missing)]"

definition six_statistics :: "nat statistics" where
  "six_statistics =
     stats_add six_scenarios ''Timing of global zero'' ''Total CO2 (net)'' (Sub_label ''year'')
       (new_statistics (\<lambda>k. Some ''Below 1.5C'') [])"

text \<open>
  Two scenarios of one cohort; the second has no value for 2030.
\<close>

definition two_scenarios :: "string dataframe" where
  "two_scenarios =
     \<lparr>columns = [2010, 2030],
      rows = [(''a'', [2010 \<mapsto> 10, 2030 \<mapsto> 0]), (''b'', [2010 \<mapsto> 5])]\<rparr>"

definition two_statistics :: "string statistics" where
  "two_statistics = new_statistics [''a'' \<mapsto> ''Below 1.5C'', ''b'' \<mapsto> ''Below 1.5C''] []"

text \<open>A table with one scenario, used for every table of a run.\<close>

definition sample_table :: "string dataframe" where
  "sample_table =
     \<lparr>columns = [2010, 2020, 2030, 2040, 2050, 2060, 2070, 2080, 2090, 2100],
      rows = [(''scenario'', [2010 \<mapsto> 10, 2020 \<mapsto> 5, 2030 \<mapsto> - 5])]\<rparr>"

definition sample_inputs :: "string inputs" where
  "sample_inputs =
     \<lparr>df_category = [''scenario'' \<mapsto> ''Below 1.5C''], cats_15_no_lo = [''Below 1.5C''],
      co2 = sample_table, co2_ene_ind_gross = sample_table, co2_ene_ind = sample_table,
      co2_afolu = sample_table, ccs_bio = sample_table, ghg = sample_table\<rparr>"

section \<open>Properties of double precision\<close>

lemma round_half_even_nonneg: "0 \<le> r \<Longrightarrow> 0 \<le> round_half_even r"
  by (simp add: round_half_even_def)

lemma round_half_even_nonpos: "r \<le> 0 \<Longrightarrow> round_half_even r \<le> 0"
proof -
  assume r: "r \<le> 0"
  show ?thesis
  proof (cases "r = 0")
    case True
    then show ?thesis by (simp add: round_half_even_def)
  next
    case False
    with r have "\<lfloor>r\<rfloor> \<le> - 1" by linarith
    then show ?thesis by (simp add: round_half_even_def)
  qed
qed

lemma round_half_even_upper: "real_of_int (round_half_even r) \<le> r + 1 / 2"
  unfolding round_half_even_def by (simp; linarith)

lemma round_half_even_lower: "r - 1 / 2 \<le> real_of_int (round_half_even r)"
  unfolding round_half_even_def by (simp; linarith)

lemma nearest_nonneg: "0 \<le> x \<Longrightarrow> 0 \<le> nearest x"
  by (simp add: nearest_def round_half_even_nonneg)

lemma nearest_nonpos: "x \<le> 0 \<Longrightarrow> nearest x \<le> 0"
  by (simp add: nearest_def round_half_even_nonpos mult_nonpos_nonneg divide_nonpos_nonneg)

lemma fl_nonneg: "0 \<le> x \<Longrightarrow> fl x = PInf \<or> (\<exists>r. fl x = Fin r \<and> 0 \<le> r)"
  using nearest_nonneg [of x] by (auto simp: fl_def)

lemma fl_nonpos: "x \<le> 0 \<Longrightarrow> fl x = NInf \<or> (\<exists>r. fl x = Fin r \<and> r \<le> 0)"
  using nearest_nonpos [of x] by (auto simp: fl_def)

lemma ulp_exponent_normal:
  assumes "2 powi k \<le> \<bar>x\<bar>" and "\<bar>x\<bar> < 2 powi (k + 1)" and "- 1022 \<le> k"
  shows "ulp_exponent x = k - 52"
proof -
  have "(0::real) < 2 powi k" by simp
  with assms(1) have pos: "0 < \<bar>x\<bar>" by linarith
  have "(2::real) powr real_of_int k = 2 powi k"
    and "(2::real) powr real_of_int (k + 1) = 2 powi (k + 1)"
    by (simp_all only: powr_real_of_int' [of 2, simplified])
  then have "2 powr real_of_int k \<le> \<bar>x\<bar> \<and> \<bar>x\<bar> < 2 powr (real_of_int k + 1)"
    using assms(1,2) by simp
  then have "\<lfloor>log 2 \<bar>x\<bar>\<rfloor> = k"
    using pos by (simp add: floor_log_eq_powr_iff)
  with assms(3) pos show ?thesis by (simp add: ulp_exponent_def)
qed

lemma ulp_exponent_subnormal:
  assumes "\<bar>x\<bar> < 2 powi (- 1022)"
  shows "ulp_exponent x = - 1074"
proof (cases "x = 0")
  case True
  then show ?thesis by (simp add: ulp_exponent_def)
next
  case False
  then have pos: "0 < \<bar>x\<bar>" by simp
  define k where "k = \<lfloor>log 2 \<bar>x\<bar>\<rfloor>"
  have "2 powr real_of_int k \<le> \<bar>x\<bar>"
    using pos floor_log_eq_powr_iff [of "\<bar>x\<bar>" 2 k] by (simp add: k_def)
  then have le: "2 powi k \<le> \<bar>x\<bar>"
    by (simp only: powr_real_of_int' [of 2, simplified])
  have "k < - 1022"
  proof (rule ccontr)
    assume "\<not> k < - 1022"
    then have "(2::real) powi (- 1022) \<le> 2 powi k"
      by (intro power_int_increasing) simp_all
    with le assms show False by simp
  qed
  with False show ?thesis by (simp add: ulp_exponent_def k_def)
qed

lemma nearest_normal:
  assumes "2 powi k \<le> \<bar>x\<bar>" and "\<bar>x\<bar> < 2 powi (k + 1)" and "- 1022 \<le> k"
  shows "nearest x = of_int (round_half_even (x / 2 powi (k - 52))) * 2 powi (k - 52)"
  using ulp_exponent_normal [OF assms] by (simp add: nearest_def)

lemma nearest_normal_bound:
  assumes "2 powi k \<le> \<bar>x\<bar>" and "\<bar>x\<bar> < 2 powi (k + 1)" and "- 1022 \<le> k"
  shows "\<bar>nearest x\<bar> \<le> 2 powi (k + 1)"
proof -
  let ?u = "(2::real) powi (k - 52)"
  have u: "0 < ?u" by simp
  have split: "(2::real) powi (k + 1) = 2 ^ 53 * ?u"
    by (simp add: power_int_diff power_int_add)
  have "\<bar>x / ?u\<bar> < 2 ^ 53"
    using assms(2) u unfolding split by (simp add: field_simps abs_mult)
  then have "\<bar>real_of_int (round_half_even (x / ?u))\<bar> < 2 ^ 53 + 1 / 2"
    using round_half_even_upper [of "x / ?u"] round_half_even_lower [of "x / ?u"] by linarith
  then have "\<bar>real_of_int (round_half_even (x / ?u))\<bar> < 9007199254740992 + 1 / 2"
    by simp
  then have "\<bar>round_half_even (x / ?u)\<bar> \<le> 9007199254740992" by linarith
  then have "\<bar>real_of_int (round_half_even (x / ?u))\<bar> \<le> 9007199254740992" by linarith
  then have "\<bar>real_of_int (round_half_even (x / ?u))\<bar> \<le> 2 ^ 53" by simp
  then have "\<bar>real_of_int (round_half_even (x / ?u))\<bar> * ?u \<le> 2 ^ 53 * ?u"
    using u by (intro mult_right_mono) simp_all
  then show ?thesis
    unfolding nearest_normal [OF assms] split by (simp add: abs_mult)
qed

lemma fl_normal:
  assumes "2 powi k \<le> \<bar>x\<bar>" and "\<bar>x\<bar> < 2 powi (k + 1)" and "- 1022 \<le> k" and "k \<le> 1022"
  shows "fl x = Fin (of_int (round_half_even (x / 2 powi (k - 52))) * 2 powi (k - 52))"
proof -
  have "(2::real) powi (k + 1) \<le> 2 powi 1023"
    using assms(4) by (intro power_int_increasing) simp_all
  also have "\<dots> < 2 ^ 1024" by simp
  finally have "\<bar>nearest x\<bar> < 2 ^ 1024"
    using nearest_normal_bound [OF assms(1-3)] by linarith
  then show ?thesis
    using nearest_normal [OF assms(1-3)] by (simp add: fl_def abs_less_iff not_le)
qed

lemma nearest_subnormal:
  assumes "\<bar>x\<bar> < 2 powi (- 1022)"
  shows "nearest x = of_int (round_half_even (x / 2 powi (- 1074))) * 2 powi (- 1074)"
  using ulp_exponent_subnormal [OF assms] by (simp add: nearest_def)

lemma fl_subnormal:
  assumes "\<bar>x\<bar> < 2 powi (- 1022)"
  shows "fl x = Fin (of_int (round_half_even (x / 2 powi (- 1074))) * 2 powi (- 1074))"
proof -
  let ?u = "(2::real) powi (- 1074)"
  have u: "0 < ?u" by simp
  have split: "(2::real) powi (- 1022) = 2 ^ 52 * ?u"
    by (simp add: power_int_minus field_simps flip: power_add)
  have "\<bar>x / ?u\<bar> < 2 ^ 52"
    using assms u unfolding split by (simp add: field_simps abs_mult)
  then have "\<bar>real_of_int (round_half_even (x / ?u))\<bar> < 2 ^ 52 + 1 / 2"
    using round_half_even_upper [of "x / ?u"] round_half_even_lower [of "x / ?u"] by linarith
  then have "\<bar>real_of_int (round_half_even (x / ?u))\<bar> < 4503599627370496 + 1 / 2"
    by simp
  then have "\<bar>round_half_even (x / ?u)\<bar> \<le> 4503599627370496" by linarith
  then have "\<bar>real_of_int (round_half_even (x / ?u))\<bar> \<le> 4503599627370496" by linarith
  then have "\<bar>real_of_int (round_half_even (x / ?u))\<bar> \<le> 2 ^ 52" by simp
  then have "\<bar>real_of_int (round_half_even (x / ?u))\<bar> * ?u \<le> 2 ^ 52 * ?u"
    using u by (intro mult_right_mono) simp_all
  then have "\<bar>nearest x\<bar> \<le> 2 powi (- 1022)"
    unfolding nearest_subnormal [OF assms] split by (simp add: abs_mult)
  also have "(2::real) powi (- 1022) < 2 ^ 1024"
    by (simp add: power_int_minus field_simps) 
  finally show ?thesis
    using nearest_subnormal [OF assms] by (simp add: fl_def abs_less_iff not_le)
qed

text \<open>
  A double is its own rounding: a number \<open>m * 2 ^ e\<close> with \<open>\<bar>m\<bar> < 2 ^ 53\<close> and
  \<open>e \<ge> -1074\<close>.
\<close>

lemma round_half_even_of_int: "round_half_even (of_int n) = n"
  by (simp add: round_half_even_def)

lemma nearest_zero: "nearest 0 = 0"
  by (simp add: nearest_def round_half_even_def)

lemma ulp_exponent_le:
  assumes "\<bar>x\<bar> < 2 powi (e + 53)" and "- 1074 \<le> e"
  shows "ulp_exponent x \<le> e"
proof (cases "x = 0")
  case True
  with assms(2) show ?thesis by (simp add: ulp_exponent_def)
next
  case False
  then have pos: "0 < \<bar>x\<bar>" by simp
  define k where "k = \<lfloor>log 2 \<bar>x\<bar>\<rfloor>"
  have "2 powr real_of_int k \<le> \<bar>x\<bar>"
    using pos floor_log_eq_powr_iff [of "\<bar>x\<bar>" 2 k] by (simp add: k_def)
  then have le: "2 powi k \<le> \<bar>x\<bar>"
    by (simp only: powr_real_of_int' [of 2, simplified])
  have "k < e + 53"
  proof (rule ccontr)
    assume "\<not> k < e + 53"
    then have "(2::real) powi (e + 53) \<le> 2 powi k"
      by (intro power_int_increasing) simp_all
    with le assms(1) show False by simp
  qed
  with False assms(2) show ?thesis by (simp add: ulp_exponent_def k_def)
qed

lemma nearest_representable:
  assumes "\<bar>m\<bar> < 2 ^ 53" and "- 1074 \<le> e"
  shows "nearest (of_int m * 2 powi e) = of_int m * 2 powi e"
proof -
  let ?x = "real_of_int m * 2 powi e"
  define u where "u = ulp_exponent ?x"
  have "real_of_int \<bar>m\<bar> < real_of_int (2 ^ 53)"
    using assms(1) by (simp only: of_int_less_iff)
  then have "\<bar>real_of_int m\<bar> < 2 ^ 53" by simp
  then have "\<bar>real_of_int m\<bar> * 2 powi e < 2 ^ 53 * 2 powi e"
    by (intro mult_strict_right_mono) simp_all
  then have "\<bar>?x\<bar> < 2 powi (e + 53)"
    by (simp add: abs_mult power_int_add mult.commute)
  then have ue: "u \<le> e" unfolding u_def using assms(2) by (rule ulp_exponent_le)
  then have "(2::real) powi (e - u) = 2 ^ nat (e - u)"
    by (simp add: power_int_def)
  moreover have "(2::real) powi e = 2 powi (e - u) * 2 powi u"
    by (simp add: power_int_diff)
  ultimately have "(2::real) powi e = 2 ^ nat (e - u) * 2 powi u" by simp
  then have split: "?x = real_of_int (m * 2 ^ nat (e - u)) * 2 powi u" by simp
  have "?x / 2 powi u = real_of_int (m * 2 ^ nat (e - u))"
    unfolding split by simp
  then have "round_half_even (?x / 2 powi u) = m * 2 ^ nat (e - u)"
    by (simp only: round_half_even_of_int)
  then have "nearest ?x = real_of_int (m * 2 ^ nat (e - u)) * 2 powi u"
    by (simp only: nearest_def u_def)
  then show ?thesis using split [symmetric] by (rule trans)
qed

subsection \<open>The operations on sample series\<close>

text \<open>
  The doubles of the literals 0.3 and 0.7, and the conversion of a difference
  of ten years.
\<close>

lemma lit_three_tenths: "lit (3 / 10) = 5404319552844595 / 2 ^ 54"
  unfolding lit_def
  by (subst nearest_normal [of "- 2"]) (simp_all add: power_int_minus round_half_even_def)

lemma lit_seven_tenths: "lit (7 / 10) = 3152519739159347 / 2 ^ 52"
  unfolding lit_def
  by (subst nearest_normal [of "- 1"]) (simp_all add: power_int_minus round_half_even_def)

lemma nearest_ten: "nearest 10 = 10"
  by (subst nearest_normal [of 3]) (simp_all add: power_int_minus round_half_even_def)

lemma nearest_minus_ten: "nearest (- 10) = - 10"
  by (subst nearest_normal [of 3]) (simp_all add: power_int_minus round_half_even_def)

text \<open>Years 2020 and 2030, values 1.0 and -1.0.\<close>

lemma fsub_unit: "fsub (- 1) 1 = Fin (- 2)"
  unfolding fsub_def
  by (subst fl_normal [of 1]) (simp_all add: power_int_minus round_half_even_def)

lemma fl_fifth: "fl (- 2 / 10) = Fin (- (3602879701896397 / 2 ^ 54))"
  by (subst fl_normal [of "- 3"]) (simp_all add: power_int_minus round_half_even_def)

lemma fsub_zero_one: "fsub 0 1 = Fin (- 1)"
  unfolding fsub_def
  by (subst fl_normal [of 0]) (simp_all add: power_int_minus round_half_even_def)

lemma fl_five: "fl (- 1 / - (3602879701896397 / 2 ^ 54)) = Fin 5"
  by (subst fl_normal [of 2]) (simp_all add: power_int_minus round_half_even_def)

lemma slope_unit: "slope 1 (Some 2020) 2030 (- 1) = Inr (Some (Fin (- (3602879701896397 / 2 ^ 54))))"
  using fl_fifth by (simp add: slope_def fdiv_def fsub_unit nearest_ten)

lemma quot_unit: "crossing_quotient 0 1 (Some (Fin (- (3602879701896397 / 2 ^ 54)))) = Inr (Some (Fin 5))"
  using fl_five by (simp add: crossing_quotient_def fdiv_def fsub_zero_one)

lemma year_unit: "year_of_net_zero [Some 1, Some (- 1)] [2020, 2030] 0 = Inr (Year 2026)"
  using slope_unit quot_unit by (simp add: year_of_net_zero_def crossing_def py_int_def)

text \<open>Years 2020 and 2030, values 0.3 and -0.7.\<close>

lemma slope_rounded:
  "slope (lit (3 / 10)) (Some 2020) 2030 (- lit (7 / 10)) =
     Inr (Some (Fin (- (3602879701896397 / 2 ^ 55))))"
proof -
  have a: "fsub (- lit (7 / 10)) (lit (3 / 10)) = Fin (- 1)"
    unfolding fsub_def lit_three_tenths lit_seven_tenths
    by (subst fl_normal [of "- 1"]) (simp_all add: power_int_minus round_half_even_def)
  have x: "fl (- 1 / 10) = Fin (- (3602879701896397 / 2 ^ 55))"
    by (subst fl_normal [of "- 4"]) (simp_all add: power_int_minus round_half_even_def)
  show ?thesis using x nearest_ten by (simp add: slope_def a fdiv_def)
qed

lemma quot_rounded:
  "crossing_quotient 0 (lit (3 / 10)) (Some (Fin (- (3602879701896397 / 2 ^ 55)))) =
     Inr (Some (Fin (6755399441055743 / 2 ^ 51)))"
proof -
  have n: "fsub 0 (lit (3 / 10)) = Fin (- (5404319552844595 / 2 ^ 54))"
    unfolding fsub_def lit_three_tenths
    by (subst fl_normal [of "- 2"]) (simp_all add: power_int_minus round_half_even_def)
  have q: "fl (- (5404319552844595 / 2 ^ 54) / - (3602879701896397 / 2 ^ 55)) =
      Fin (6755399441055743 / 2 ^ 51)"
    by (subst fl_normal [of 1]) (simp_all add: power_int_minus round_half_even_def)
  show ?thesis using q by (simp add: crossing_quotient_def n fdiv_def)
qed

lemma year_rounded:
  "year_of_net_zero [Some (lit (3 / 10)), Some (- lit (7 / 10))] [2020, 2030] 0 = Inr (Year 2023)"
proof -
  have "0 \<le> lit (3 / 10)" and "lit (7 / 10) > 0"
    by (simp_all add: lit_three_tenths lit_seven_tenths)
  then show ?thesis
    using slope_rounded quot_rounded by (simp add: year_of_net_zero_def crossing_def py_int_def)
qed

lemma exact_rounded: "interpolated_year 2020 (lit (3 / 10)) 2030 (- lit (7 / 10)) 0 = 2024"
  by (simp add: interpolated_year_def lit_three_tenths lit_seven_tenths)

text \<open>Years 2020 and 2030, values 1.0 and -2^-60.\<close>

lemma slope_late:
  "slope 1 (Some 2020) 2030 (- (1 / 2 ^ 60)) = Inr (Some (Fin (- (3602879701896397 / 2 ^ 55))))"
proof -
  have a: "fsub (- (1 / 2 ^ 60)) 1 = Fin (- 1)"
    unfolding fsub_def
    by (subst fl_normal [of 0]) (simp_all add: power_int_minus round_half_even_def)
  have x: "fl (- 1 / 10) = Fin (- (3602879701896397 / 2 ^ 55))"
    by (subst fl_normal [of "- 4"]) (simp_all add: power_int_minus round_half_even_def)
  show ?thesis using a x nearest_ten by (simp add: slope_def fdiv_def)
qed

lemma quot_late:
  "crossing_quotient 0 1 (Some (Fin (- (3602879701896397 / 2 ^ 55)))) = Inr (Some (Fin 10))"
proof -
  have q: "fl (- 1 / - (3602879701896397 / 2 ^ 55)) = Fin 10"
    by (subst fl_normal [of 3]) (simp_all add: power_int_minus round_half_even_def)
  show ?thesis using q fsub_zero_one by (simp add: crossing_quotient_def fdiv_def)
qed

lemma year_late:
  "year_of_net_zero [Some 1, Some (- (1 / 2 ^ 60))] [2020, 2030] 0 = Inr (Year 2031)"
  using slope_late quot_late by (simp add: year_of_net_zero_def crossing_def py_int_def)

text \<open>Years 2030 and 2020, values 1.25 and -3.75.\<close>

lemma slope_backwards: "slope (5 / 4) (Some 2030) 2020 (- (15 / 4)) = Inr (Some (Fin (1 / 2)))"
proof -
  have a: "fsub (- (15 / 4)) (5 / 4) = Fin (- 5)"
    unfolding fsub_def
    by (subst fl_normal [of 2]) (simp_all add: power_int_minus round_half_even_def)
  have x: "fl (- 5 / - 10) = Fin (1 / 2)"
    by (subst fl_normal [of "- 1"]) (simp_all add: power_int_minus round_half_even_def)
  show ?thesis using a x nearest_minus_ten by (simp add: slope_def fdiv_def)
qed

lemma quot_backwards: "crossing_quotient 0 (5 / 4) (Some (Fin (1 / 2))) = Inr (Some (Fin (- (5 / 2))))"
proof -
  have n: "fsub 0 (5 / 4) = Fin (- (5 / 4))"
    unfolding fsub_def
    by (subst fl_normal [of 0]) (simp_all add: power_int_minus round_half_even_def)
  have q: "fl (- (5 / 4) / (1 / 2)) = Fin (- (5 / 2))"
    by (subst fl_normal [of 1]) (simp_all add: power_int_minus round_half_even_def)
  show ?thesis using n q by (simp add: crossing_quotient_def fdiv_def)
qed

lemma year_backwards: "year_of_net_zero [Some (5 / 4), Some (- (15 / 4))] [2030, 2020] 0 = Inr (Year 2029)"
  using slope_backwards quot_backwards by (simp add: year_of_net_zero_def crossing_def py_int_def)

lemma exact_backwards: "interpolated_year 2030 (5 / 4) 2020 (- (15 / 4)) 0 = 2028"
  by (simp add: interpolated_year_def)

text \<open>Years 2020 and 2030, values 0.0 and the negative double nearest to zero.\<close>

lemma slope_underflow: "slope 0 (Some 2020) 2030 (- (2 powi - 1074)) = Inr (Some (Fin 0))"
proof -
  have a: "fsub (- (2 powi - 1074)) 0 = Fin (- (2 powi - 1074))"
    unfolding fsub_def
    by (subst fl_subnormal) (simp_all add: power_int_minus round_half_even_def)
  have x: "fl (- (2 powi - 1074) / 10) = Fin 0"
    by (subst fl_subnormal) (simp_all add: power_int_minus round_half_even_def)
  show ?thesis using a x nearest_ten by (simp add: slope_def fdiv_def)
qed

lemma year_underflow:
  "year_of_net_zero [Some 0, Some (- (2 powi - 1074))] [2020, 2030] 0 = Inl ZeroDivisionError"
  using slope_underflow
  by (simp add: year_of_net_zero_def crossing_def crossing_quotient_def fdiv_def)

text \<open>Years 2020 and 2030, values 5 and -5.\<close>

lemma crossing_sample:
  "crossing 5 (Some 2020) 0 2030 (- 5) = Inr (Year 2026)"
proof -
  have a: "fsub (- 5) 5 = Fin (- 10)"
    unfolding fsub_def
    by (subst fl_normal [of 3]) (simp_all add: power_int_minus round_half_even_def)
  have x: "fl (- 10 / 10) = Fin (- 1)"
    by (subst fl_normal [of 0]) (simp_all add: power_int_minus round_half_even_def)
  have n: "fsub 0 5 = Fin (- 5)"
    unfolding fsub_def
    by (subst fl_normal [of 2]) (simp_all add: power_int_minus round_half_even_def)
  have q: "fl (- 5 / - 1) = Fin 5"
    by (subst fl_normal [of 2]) (simp_all add: power_int_minus round_half_even_def)
  show ?thesis
    using a x n q nearest_ten
    by (simp add: crossing_def slope_def crossing_quotient_def fdiv_def py_int_def)
qed

section \<open>Properties of the year of net zero\<close>

lemma crossing_no_prev_year: "crossing pv None th y v = Inl ValueError"
  by (simp add: crossing_def slope_def crossing_quotient_def py_int_def)

text \<open>Two points of the same year: the division by the zero difference raises.\<close>

lemma slope_same_year: "slope pv (Some p) p v = Inl ZeroDivisionError"
  by (simp add: slope_def fdiv_def nearest_zero)

lemma quotient_nonneg:
  assumes "th \<le> pv" and "v < th" and "p < yr"
    and "slope pv (Some p) yr v = Inr x"
    and "crossing_quotient th pv x = Inr (Some (Fin q))"
  shows "0 \<le> q"
proof -
  define d where "d = nearest (real_of_int (yr - p))"
  have d0: "0 \<le> d" unfolding d_def using assms(3) by (intro nearest_nonneg) simp
  have sl: "fdiv (fsub v pv) (Fin d) = Inr x"
    using assms(4) by (simp add: slope_def d_def)
  then have d: "0 < d" using d0 by (cases "d = 0") (simp_all add: fdiv_def)
  have a: "fsub v pv = NInf \<or> (\<exists>r. fsub v pv = Fin r \<and> r \<le> 0)"
    unfolding fsub_def using assms(1,2) by (intro fl_nonpos) simp
  have n: "fsub th pv = NInf \<or> (\<exists>r. fsub th pv = Fin r \<and> r \<le> 0)"
    unfolding fsub_def using assms(1) by (intro fl_nonpos) simp
  have x: "x = Some NInf \<or> (\<exists>s. x = Some (Fin s) \<and> s \<le> 0)"
  proof -
    from a show ?thesis
    proof
      assume "fsub v pv = NInf"
      with sl d show ?thesis by (simp add: fdiv_def)
    next
      assume "\<exists>r. fsub v pv = Fin r \<and> r \<le> 0"
      then obtain r where r: "fsub v pv = Fin r" "r \<le> 0" by blast
      with d have "r / d \<le> 0" by (simp add: divide_nonpos_pos)
      from fl_nonpos [OF this] r sl d show ?thesis by (auto simp: fdiv_def)
    qed
  qed
  from x show ?thesis
  proof
    assume x: "x = Some NInf"
    with n assms(5) show ?thesis by (auto simp: crossing_quotient_def fdiv_def)
  next
    assume "\<exists>s. x = Some (Fin s) \<and> s \<le> 0"
    then obtain s where s: "x = Some (Fin s)" "s \<le> 0" by blast
    with assms(5) have s0: "s < 0"
      by (cases "s = 0") (simp_all add: crossing_quotient_def fdiv_def)
    from n show ?thesis
    proof
      assume "fsub th pv = NInf"
      with s s0 assms(5) show ?thesis by (simp add: crossing_quotient_def fdiv_def)
    next
      assume "\<exists>r. fsub th pv = Fin r \<and> r \<le> 0"
      then obtain r where r: "fsub th pv = Fin r" "r \<le> 0" by blast
      with s0 have "0 \<le> r / s" by (simp add: divide_nonpos_neg)
      from fl_nonneg [OF this] r s s0 assms(5) show ?thesis
        by (auto simp: crossing_quotient_def fdiv_def)
    qed
  qed
qed

lemma crossing_returns:
  assumes "th \<le> pv" and "v < th" and "p < yr"
    and "slope pv (Some p) yr v = Inr x"
    and "crossing_quotient th pv x = Inr (Some (Fin q))"
  shows "py_int (Some (Fin q)) = Inr \<lfloor>q\<rfloor>"
    and "crossing pv (Some p) th yr v = Inr (Year (p + \<lfloor>q\<rfloor> + 1))"
  using quotient_nonneg [OF assms] assms(4,5) by (simp_all add: crossing_def py_int_def)

lemma crossing_year_only_if:
  assumes "crossing pv py th yr v = Inr (Year r)"
  shows "\<exists>p x q. py = Some p \<and> slope pv py yr v = Inr x \<and>
           crossing_quotient th pv x = Inr (Some (Fin q)) \<and>
           py_int (Some (Fin q)) = Inr (r - p - 1)"
  using assms
  by (auto simp: crossing_def py_int_def split: sum.splits option.splits xreal.splits)

lemma crossing_as_outcome:
  assumes "th \<le> pv" and "v < th" and "p < yr"
  shows "as_outcome (crossing pv (Some p) th yr v) =
     (case fdiv (fsub v pv) (Fin (nearest (real_of_int (yr - p)))) of
        Inr (Some s) \<Rightarrow>
          (case fdiv (fsub th pv) s of
             Inr (Some (Fin q)) \<Rightarrow> Crossing (p + \<lfloor>q\<rfloor> + 1)
           | _ \<Rightarrow> Undefined)
      | _ \<Rightarrow> Undefined)"
proof (cases "slope pv (Some p) yr v")
  case (Inl e)
  then show ?thesis by (simp add: crossing_def slope_def)
next
  case (Inr x)
  note sl = this
  show ?thesis
  proof (cases x)
    case None
    with sl show ?thesis
      by (simp add: crossing_def slope_def crossing_quotient_def py_int_def)
  next
    case (Some s)
    show ?thesis
    proof (cases "crossing_quotient th pv x")
      case (Inl e)
      with sl Some show ?thesis by (simp add: crossing_def slope_def crossing_quotient_def)
    next
      case (Inr y)
      note qu = this
      show ?thesis
      proof (cases y)
        case None
        with sl Some qu show ?thesis
          by (simp add: crossing_def slope_def crossing_quotient_def py_int_def)
      next
        case y: (Some z)
        show ?thesis
        proof (cases z)
          case (Fin q)
          with qu y have "crossing_quotient th pv x = Inr (Some (Fin q))" by simp
          from crossing_returns(2) [OF assms sl this] sl Some qu y Fin show ?thesis
            by (simp add: slope_def crossing_quotient_def)
        next
          case PInf
          with sl Some qu y show ?thesis
            by (simp add: crossing_def slope_def crossing_quotient_def py_int_def)
        next
          case NInf
          with sl Some qu y show ?thesis
            by (simp add: crossing_def slope_def crossing_quotient_def py_int_def)
        qed
      qed
    qed
  qed
qed

lemma net_zero_loop_crossing_at:
  "net_zero_loop pv py th ps =
     (case crossing_at pv py th ps of
        None \<Rightarrow> Inr PosInf
      | Some (a, b, y, v) \<Rightarrow> crossing a b th y v)"
  by (induction pv py th ps rule: net_zero_loop.induct) (auto split: option.splits)

lemma net_zero_loop_present:
  "net_zero_loop pv py th (present ps) = net_zero_loop pv py th ps"
  by (induction pv py th ps rule: net_zero_loop.induct) (auto simp: present_def split: option.splits)

lemma zip_fst_snd: "zip (map fst ps) (map snd ps) = ps"
  by (induction ps) auto

lemma net_zero_loop_skip_prefix:
  "\<forall>p \<in> set pre. snd p = None \<Longrightarrow>
   net_zero_loop pv py th (pre @ ps) = net_zero_loop pv py th ps"
  by (induction pre) auto

lemma net_zero_loop_drop_missing:
  "net_zero_loop pv py th (dropWhile (\<lambda>p. snd p = None) ps) = net_zero_loop pv py th ps"
  by (induction ps) auto

lemma net_zero_loop_above_prefix:
  "\<forall>p \<in> set pre. \<forall>w. snd p = Some w \<longrightarrow> \<not> w < th \<Longrightarrow> \<not> w < th \<Longrightarrow>
   net_zero_loop pv py th (pre @ (q, Some w) # ps) = net_zero_loop w (Some q) th ps"
proof (induction pre arbitrary: pv py)
  case Nil
  then show ?case by simp
next
  case (Cons a pre)
  obtain yr val where a: "a = (yr, val)" by (cases a)
  from Cons.prems have rest: "\<forall>p \<in> set pre. \<forall>w. snd p = Some w \<longrightarrow> \<not> w < th"
    by simp
  show ?case
  proof (cases val)
    case None
    with a Cons.IH [OF rest Cons.prems(2)] show ?thesis by simp
  next
    case (Some u)
    with Cons.prems(1) a have "\<not> u < th" by simp
    with a Some Cons.IH [OF rest Cons.prems(2)] show ?thesis by simp
  qed
qed

lemma net_zero_loop_never_below:
  "\<forall>p \<in> set ps. \<forall>v. snd p = Some v \<longrightarrow> \<not> v < threshold \<Longrightarrow>
   net_zero_loop prev_val prev_yr threshold ps = Inr PosInf"
proof (induction ps arbitrary: prev_val prev_yr)
  case Nil
  show ?case by simp
next
  case (Cons a ps)
  obtain yr val where a: "a = (yr, val)" by (cases a)
  from Cons.prems have rest: "\<forall>p \<in> set ps. \<forall>v. snd p = Some v \<longrightarrow> \<not> v < threshold"
    by simp
  show ?case
  proof (cases val)
    case None
    with a Cons.IH [OF rest] show ?thesis by simp
  next
    case (Some v)
    with Cons.prems a have "\<not> v < threshold" by simp
    with a Some Cons.IH [OF rest] show ?thesis by simp
  qed
qed

lemma loop_states_never_below:
  "\<forall>p \<in> set ps. \<forall>v. snd p = Some v \<longrightarrow> \<not> v < threshold \<Longrightarrow>
   length (loop_states prev_val prev_yr threshold ps) = length ps"
proof (induction ps arbitrary: prev_val prev_yr)
  case Nil
  show ?case by simp
next
  case (Cons a ps)
  obtain yr val where a: "a = (yr, val)" by (cases a)
  from Cons.prems have rest: "\<forall>p \<in> set ps. \<forall>v. snd p = Some v \<longrightarrow> \<not> v < threshold"
    by simp
  show ?case
  proof (cases val)
    case None
    with a Cons.IH [OF rest] show ?thesis by simp
  next
    case (Some v)
    with Cons.prems a have "\<not> v < threshold" by simp
    with a Some Cons.IH [OF rest] show ?thesis by simp
  qed
qed

lemma loop_states_invariant:
  "th \<le> pv \<Longrightarrow> \<forall>s \<in> set (loop_states pv py th ps). th \<le> fst s"
  by (induction pv py th ps rule: loop_states.induct) (auto split: option.splits)

lemma crossing_at_sorted:
  assumes "sorted_wrt (<) (map fst ps)"
    and "\<forall>p. py = Some p \<longrightarrow> (\<forall>q \<in> set ps. p < fst q)"
    and "py \<noteq> None \<longrightarrow> th \<le> pv"
    and "crossing_at pv py th ps = Some (a, Some b, y, v)"
  shows "b < y \<and> th \<le> a \<and> v < th"
  using assms
proof (induction ps arbitrary: pv py)
  case Nil
  then show ?case by simp
next
  case (Cons c ps)
  obtain yr val where c: "c = (yr, val)" by (cases c)
  from Cons.prems(1) have sorted: "sorted_wrt (<) (map fst ps)"
    and later: "\<forall>q \<in> set ps. yr < fst q"
    by (auto simp: c)
  from Cons.prems(2) have keep: "\<forall>p. py = Some p \<longrightarrow> (\<forall>q \<in> set ps. p < fst q)"
    by simp
  show ?case
  proof (cases val)
    case None
    with Cons.prems(4) c have "crossing_at pv py th ps = Some (a, Some b, y, v)" by simp
    from Cons.IH [OF sorted keep Cons.prems(3) this] show ?thesis .
  next
    case (Some u)
    show ?thesis
    proof (cases "u < th")
      case True
      with Cons.prems(4) c Some have eq: "pv = a" "py = Some b" "yr = y" "u = v" by simp_all
      with Cons.prems(2,3) c True show ?thesis by simp
    next
      case False
      with Cons.prems(4) c Some
      have at: "crossing_at u (Some yr) th ps = Some (a, Some b, y, v)" by simp
      have "\<forall>p. Some yr = Some p \<longrightarrow> (\<forall>q \<in> set ps. p < fst q)" using later by simp
      moreover have "Some yr \<noteq> None \<longrightarrow> th \<le> u" using False by simp
      ultimately show ?thesis using Cons.IH [OF sorted _ _ at] by blast
    qed
  qed
qed

lemma sorted_years_zip:
  "sorted_wrt (<) years \<Longrightarrow> sorted_wrt (<) (map fst (zip years data))"
  by (simp add: map_fst_zip_take sorted_wrt_take)

lemma crossing_at_first_last:
  "crossing_at pv py th ps = Some (a, b, y, v) \<Longrightarrow>
   first_below th ps = Some y \<and> last_above py th ps = b"
  by (induction pv py th ps rule: crossing_at.induct) (auto split: option.splits if_splits)

lemma net_zero_loop_refines:
  assumes "sorted_wrt (<) (map fst ps)"
    and "\<forall>p. py = Some p \<longrightarrow> (\<forall>q \<in> set ps. p < fst q)"
    and "py \<noteq> None \<longrightarrow> th \<le> pv"
  shows "as_outcome (net_zero_loop pv py th ps) = spec_search_double pv py th ps"
  using assms
proof (induction ps arbitrary: pv py)
  case Nil
  show ?case by simp
next
  case (Cons c ps)
  obtain yr val where c: "c = (yr, val)" by (cases c)
  from Cons.prems(1) have sorted: "sorted_wrt (<) (map fst ps)"
    and later: "\<forall>q \<in> set ps. yr < fst q"
    by (auto simp: c)
  from Cons.prems(2) have keep: "\<forall>p. py = Some p \<longrightarrow> (\<forall>q \<in> set ps. p < fst q)"
    and here: "\<forall>p. py = Some p \<longrightarrow> p < yr"
    by (simp_all add: c)
  show ?case
  proof (cases val)
    case None
    with c Cons.IH [OF sorted keep Cons.prems(3)] show ?thesis by simp
  next
    case (Some u)
    show ?thesis
    proof (cases "u < th")
      case True
      show ?thesis
      proof (cases py)
        case None
        with c Some True show ?thesis by (simp add: crossing_no_prev_year)
      next
        case (Some p)
        with here Cons.prems(3) have "p < yr" "th \<le> pv" by simp_all
        with c \<open>val = Some u\<close> True Some show ?thesis
          by (simp add: crossing_as_outcome)
      qed
    next
      case False
      have "\<forall>p. Some yr = Some p \<longrightarrow> (\<forall>q \<in> set ps. p < fst q)" using later by simp
      moreover have "Some yr \<noteq> None \<longrightarrow> th \<le> u" using False by simp
      ultimately have "as_outcome (net_zero_loop u (Some yr) th ps) =
          spec_search_double u (Some yr) th ps"
        by (rule Cons.IH [OF sorted])
      with c Some False show ?thesis by simp
    qed
  qed
qed

text \<open>
  Claim C1, as amended. With threshold 0: when the first value below the
  threshold is reached at year \<open>y\<close> with value \<open>v\<close>, and the last point with a
  value before it is \<open>(prev_year, prev_value)\<close>, of an earlier year, and the
  slope \<open>(v - prev_value) / (y - prev_year)\<close> and the quotient
  \<open>q = (threshold - prev_value) / slope\<close>, computed in doubles as the code
  computes them, give a number \<open>q\<close>, then \<open>q\<close> is not negative and
  \<^verbatim>\<open>year_of_net_zero\<close> returns \<open>prev_year + floor q + 1\<close>. The pairs before
  the previous point are missing or not below the threshold, the pairs between
  the two points are missing.
\<close>

theorem year_of_net_zero_interpolates:
  assumes "zip years data = pre @ (prev_year, Some prev_value) # mid @ (y, Some v) # rest"
    and "\<forall>p \<in> set pre. \<forall>w. snd p = Some w \<longrightarrow> \<not> w < 0"
    and "\<not> prev_value < 0"
    and "\<forall>p \<in> set mid. snd p = None"
    and "v < 0"
    and "prev_year < y"
    and "slope prev_value (Some prev_year) y v = Inr x"
    and "crossing_quotient 0 prev_value x = Inr (Some (Fin q))"
  shows "0 \<le> q \<and> year_of_net_zero data years 0 = Inr (Year (prev_year + \<lfloor>q\<rfloor> + 1))"
proof
  have pv: "0 \<le> prev_value" using assms(3) by simp
  show "0 \<le> q" using pv assms(5-8) by (rule quotient_nonneg)
  have "net_zero_loop 0 None 0 (zip years data) =
        net_zero_loop prev_value (Some prev_year) 0 (mid @ (y, Some v) # rest)"
    unfolding assms(1) using assms(2,3) by (rule net_zero_loop_above_prefix)
  also have "\<dots> = net_zero_loop prev_value (Some prev_year) 0 ((y, Some v) # rest)"
    using assms(4) by (rule net_zero_loop_skip_prefix)
  also have "\<dots> = crossing prev_value (Some prev_year) 0 y v"
    using assms(5) by simp
  also have "\<dots> = Inr (Year (prev_year + \<lfloor>q\<rfloor> + 1))"
    using pv assms(5-8) by (rule crossing_returns(2))
  finally show "year_of_net_zero data years 0 = Inr (Year (prev_year + \<lfloor>q\<rfloor> + 1))"
    by (simp add: year_of_net_zero_def)
qed

text \<open>
  The years 2020 and 2030 with the values 1.0 and -1.0: the slope is the double
  -0.2, the quotient is 5.0, and the year is 2026.
\<close>

theorem year_of_net_zero_interpolates_witness:
  "(0::real) \<le> 5 \<and> year_of_net_zero [Some 1, Some (- 1)] [2020, 2030] 0 = Inr (Year 2026)"
proof -
  have "(0::real) \<le> 5 \<and>
     year_of_net_zero [Some 1, Some (- 1)] [2020, 2030] 0 = Inr (Year (2020 + \<lfloor>5::real\<rfloor> + 1))"
    by (rule year_of_net_zero_interpolates
        [where pre = "[]" and mid = "[]" and rest = "[]", OF _ _ _ _ _ _ slope_unit quot_unit])
      simp_all
  then show ?thesis by simp
qed

text \<open>
  Three series on which the claim as it is stated fails. With the values 0.3
  and -0.7 for 2020 and 2030 the code returns 2023, the formula in exact
  arithmetic gives 2024. With the years in decreasing order (2030 with 1.25,
  then 2020 with -3.75) the quotient is -2.5, which \<^verbatim>\<open>int()\<close> truncates
  to -2: the code returns 2029, the formula gives 2028. With the values 0.0 and
  the negative double nearest to zero the slope underflows to zero and the code
  raises.
\<close>

theorem year_of_net_zero_interpolates_counterexample:
  "year_of_net_zero [Some (lit (3 / 10)), Some (- lit (7 / 10))] [2020, 2030] 0 =
     Inr (Year 2023) \<and>
   interpolated_year 2020 (lit (3 / 10)) 2030 (- lit (7 / 10)) 0 = 2024 \<and>
   year_of_net_zero [Some (5 / 4), Some (- (15 / 4))] [2030, 2020] 0 = Inr (Year 2029) \<and>
   interpolated_year 2030 (5 / 4) 2020 (- (15 / 4)) 0 = 2028 \<and>
   year_of_net_zero [Some 0, Some (- (2 powi - 1074))] [2020, 2030] 0 =
     Inl ZeroDivisionError"
  using year_rounded exact_rounded year_backwards exact_backwards year_underflow by simp

text \<open>
  Claim C2. For a series in which no value that is present lies strictly
  below the threshold, \<^verbatim>\<open>year_of_net_zero\<close> returns positive infinity,
  after an iteration of the loop for every (year, value) pair.
\<close>

theorem year_of_net_zero_never_below:
  assumes "\<forall>p \<in> set (zip years data). \<forall>v. snd p = Some v \<longrightarrow> \<not> v < threshold"
  shows "year_of_net_zero data years threshold = Inr PosInf \<and>
         length (loop_states 0 None threshold (zip years data)) = length (zip years data)"
  unfolding year_of_net_zero_def
  using assms by (simp add: net_zero_loop_never_below loop_states_never_below)

theorem year_of_net_zero_never_below_witness:
  "year_of_net_zero [Some 3, None, Some 0] [2010, 2020, 2030] 0 = Inr PosInf \<and>
   length (loop_states 0 None 0 (zip [2010, 2020, 2030] [Some 3, None, Some 0])) =
     length (zip [2010, 2020, 2030 :: int] [Some 3, None, Some (0 :: real)])"
  by (rule year_of_net_zero_never_below) simp

text \<open>
  Claim C5. When the first value of a series that is present is already below
  the threshold, the slope is computed against the undefined previous year and
  is NaN; \<^verbatim>\<open>year_of_net_zero\<close> returns no year: \<^verbatim>\<open>int()\<close> of the NaN
  quotient raises \<^verbatim>\<open>ValueError\<close>.
\<close>

theorem first_value_below_raises:
  assumes "dropWhile (\<lambda>p. snd p = None) (zip years data) = (y, Some v) # rest"
    and "v < threshold"
  shows "slope 0 None y v = Inr None \<and>
         year_of_net_zero data years threshold = Inl ValueError"
proof -
  have "net_zero_loop 0 None threshold (zip years data) =
        net_zero_loop 0 None threshold ((y, Some v) # rest)"
    using net_zero_loop_drop_missing [of 0 None threshold "zip years data"] assms(1) by simp
  also have "\<dots> = Inl ValueError"
    using assms(2) by (simp add: crossing_no_prev_year)
  finally show ?thesis by (simp add: year_of_net_zero_def slope_def)
qed

theorem first_value_below_raises_witness:
  "slope 0 None 2030 (- 2) = Inr None \<and>
   year_of_net_zero [None, Some (- 2), Some 1] [2020, 2030, 2040] 0 = Inl ValueError"
  by (rule first_value_below_raises [where rest = "[(2040, Some 1)]"]) simp_all

text \<open>
  Claim C6. A pair whose value is missing is skipped and leaves
  \<^verbatim>\<open>prev_val\<close> and \<^verbatim>\<open>prev_yr\<close> as they are: the result for a series
  is the result for the series without its missing entries.
\<close>

theorem missing_skipped:
  "net_zero_loop prev_val prev_yr threshold ((yr, None) # rest) =
     net_zero_loop prev_val prev_yr threshold rest \<and>
   year_of_net_zero data years threshold =
     year_of_net_zero (map snd (present (zip years data)))
       (map fst (present (zip years data))) threshold"
  by (simp add: year_of_net_zero_def zip_fst_snd net_zero_loop_present)

theorem missing_skipped_witness:
  "year_of_net_zero [Some 1, None, Some (- 1)] [2020, 2025, 2030] 0 =
   year_of_net_zero [Some 1, Some (- 1)] [2020, 2030] 0"
  using missing_skipped [where data = "[Some 1, None, Some (- 1)]"
      and years = "[2020, 2025, 2030]" and threshold = 0]
  by (simp add: present_def)

text \<open>
  Claim C8, as amended. For a threshold \<open>\<le> 0\<close> and years in strictly
  increasing order: at every iteration of the loop \<open>prev_val \<ge> threshold\<close>;
  whenever the crossing branch is taken after a previous point has been
  recorded and the quotient \<open>(threshold - prev_val) / x\<close>, computed in doubles,
  is a number, the quotient is not negative, \<^verbatim>\<open>int()\<close> of it is its
  floor, and the year that is returned is at least \<open>prev_yr + 1\<close>; and every
  year that is returned comes from such an iteration.
\<close>

theorem crossing_invariant:
  assumes "threshold \<le> 0" and "sorted_wrt (<) years"
  shows "(\<forall>s \<in> set (loop_states 0 None threshold (zip years data)). threshold \<le> fst s) \<and>
    (\<forall>pv p yr v x q.
       crossing_at 0 None threshold (zip years data) = Some (pv, Some p, yr, v) \<and>
       slope pv (Some p) yr v = Inr x \<and>
       crossing_quotient threshold pv x = Inr (Some (Fin q)) \<longrightarrow>
       0 \<le> q \<and> py_int (Some (Fin q)) = Inr \<lfloor>q\<rfloor> \<and>
       year_of_net_zero data years threshold = Inr (Year (p + \<lfloor>q\<rfloor> + 1)) \<and>
       p + 1 \<le> p + \<lfloor>q\<rfloor> + 1) \<and>
    (\<forall>r. year_of_net_zero data years threshold = Inr (Year r) \<longrightarrow>
       (\<exists>pv p yr v x q.
          crossing_at 0 None threshold (zip years data) = Some (pv, Some p, yr, v) \<and>
          slope pv (Some p) yr v = Inr x \<and>
          crossing_quotient threshold pv x = Inr (Some (Fin q)) \<and>
          0 \<le> q \<and> r = p + \<lfloor>q\<rfloor> + 1 \<and> p + 1 \<le> r))"
proof (intro conjI)
  show "\<forall>s \<in> set (loop_states 0 None threshold (zip years data)). threshold \<le> fst s"
    using assms(1) by (rule loop_states_invariant)
next
  show "\<forall>pv p yr v x q.
       crossing_at 0 None threshold (zip years data) = Some (pv, Some p, yr, v) \<and>
       slope pv (Some p) yr v = Inr x \<and>
       crossing_quotient threshold pv x = Inr (Some (Fin q)) \<longrightarrow>
       0 \<le> q \<and> py_int (Some (Fin q)) = Inr \<lfloor>q\<rfloor> \<and>
       year_of_net_zero data years threshold = Inr (Year (p + \<lfloor>q\<rfloor> + 1)) \<and>
       p + 1 \<le> p + \<lfloor>q\<rfloor> + 1"
  proof (intro allI impI)
  fix pv p yr v x q
  assume "crossing_at 0 None threshold (zip years data) = Some (pv, Some p, yr, v) \<and>
       slope pv (Some p) yr v = Inr x \<and>
       crossing_quotient threshold pv x = Inr (Some (Fin q))"
  then have at: "crossing_at 0 None threshold (zip years data) = Some (pv, Some p, yr, v)"
    and sl: "slope pv (Some p) yr v = Inr x"
    and qu: "crossing_quotient threshold pv x = Inr (Some (Fin q))"
    by simp_all
  have ord: "p < yr \<and> threshold \<le> pv \<and> v < threshold"
    using sorted_years_zip [OF assms(2)] _ _ at by (rule crossing_at_sorted) simp_all
  then have o: "threshold \<le> pv" "v < threshold" "p < yr" by simp_all
  have q: "0 \<le> q" using o sl qu by (rule quotient_nonneg)
  moreover have "py_int (Some (Fin q)) = Inr \<lfloor>q\<rfloor>" using o sl qu by (rule crossing_returns(1))
  moreover have "year_of_net_zero data years threshold = Inr (Year (p + \<lfloor>q\<rfloor> + 1))"
    using at crossing_returns(2) [OF o sl qu]
    by (simp add: year_of_net_zero_def net_zero_loop_crossing_at)
  moreover have "p + 1 \<le> p + \<lfloor>q\<rfloor> + 1" using q by simp
  ultimately show "0 \<le> q \<and> py_int (Some (Fin q)) = Inr \<lfloor>q\<rfloor> \<and>
       year_of_net_zero data years threshold = Inr (Year (p + \<lfloor>q\<rfloor> + 1)) \<and>
       p + 1 \<le> p + \<lfloor>q\<rfloor> + 1"
    by simp
  qed
next
  show "\<forall>r. year_of_net_zero data years threshold = Inr (Year r) \<longrightarrow>
       (\<exists>pv p yr v x q.
          crossing_at 0 None threshold (zip years data) = Some (pv, Some p, yr, v) \<and>
          slope pv (Some p) yr v = Inr x \<and>
          crossing_quotient threshold pv x = Inr (Some (Fin q)) \<and>
          0 \<le> q \<and> r = p + \<lfloor>q\<rfloor> + 1 \<and> p + 1 \<le> r)"
  proof (intro allI impI)
  fix r
  assume res: "year_of_net_zero data years threshold = Inr (Year r)"
  then obtain pv py yr v
    where at: "crossing_at 0 None threshold (zip years data) = Some (pv, py, yr, v)"
      and cr: "crossing pv py threshold yr v = Inr (Year r)"
    by (auto simp: year_of_net_zero_def net_zero_loop_crossing_at split: option.splits)
  from crossing_year_only_if [OF cr] obtain p x q
    where py: "py = Some p" and sl: "slope pv (Some p) yr v = Inr x"
      and qu: "crossing_quotient threshold pv x = Inr (Some (Fin q))"
    by blast
  have ord: "p < yr \<and> threshold \<le> pv \<and> v < threshold"
    using sorted_years_zip [OF assms(2)] _ _ at [unfolded py] by (rule crossing_at_sorted) simp_all
  then have o: "threshold \<le> pv" "v < threshold" "p < yr" by simp_all
  have q: "0 \<le> q" using o sl qu by (rule quotient_nonneg)
  from cr py crossing_returns(2) [OF o sl qu] have r: "r = p + \<lfloor>q\<rfloor> + 1" by simp
  with q have "p + 1 \<le> r" by simp
  with at py sl qu q r show "\<exists>pv p yr v x q.
          crossing_at 0 None threshold (zip years data) = Some (pv, Some p, yr, v) \<and>
          slope pv (Some p) yr v = Inr x \<and>
          crossing_quotient threshold pv x = Inr (Some (Fin q)) \<and>
          0 \<le> q \<and> r = p + \<lfloor>q\<rfloor> + 1 \<and> p + 1 \<le> r"
    by blast
  qed
qed

theorem crossing_invariant_witness:
  "(0::real) \<le> 5 \<and> py_int (Some (Fin 5)) = Inr \<lfloor>5::real\<rfloor> \<and>
   year_of_net_zero [Some 1, Some (- 1)] [2020, 2030] 0 = Inr (Year (2020 + \<lfloor>5::real\<rfloor> + 1)) \<and>
   (\<exists>pv p yr v. crossing_at 0 None 0 (zip [2020, 2030] [Some 1, Some (- 1)]) =
      Some (pv, Some p, yr, v) \<and> p + 1 \<le> 2026)"
proof -
  have "(0::real) \<le> 0" and "sorted_wrt (<) [2020, 2030 :: int]" by simp_all
  note inv = crossing_invariant [OF this, of "[Some 1, Some (- 1)]"]
  have at: "crossing_at 0 None 0 (zip [2020, 2030] [Some 1, Some (- 1)]) =
      Some (1, Some 2020, 2030, - 1)" by simp
  from inv at slope_unit quot_unit
  have first: "(0::real) \<le> 5 \<and> py_int (Some (Fin 5)) = Inr \<lfloor>5::real\<rfloor> \<and>
     year_of_net_zero [Some 1, Some (- 1)] [2020, 2030] 0 = Inr (Year (2020 + \<lfloor>5::real\<rfloor> + 1))"
    by blast
  then have "year_of_net_zero [Some 1, Some (- 1)] [2020, 2030] 0 = Inr (Year 2026)" by simp
  with inv have "\<exists>pv p yr v x q.
      crossing_at 0 None 0 (zip [2020, 2030] [Some 1, Some (- 1)]) = Some (pv, Some p, yr, v) \<and>
      slope pv (Some p) yr v = Inr x \<and>
      crossing_quotient 0 pv x = Inr (Some (Fin q)) \<and>
      0 \<le> q \<and> 2026 = p + \<lfloor>q\<rfloor> + 1 \<and> p + 1 \<le> 2026"
    by blast
  then have "\<exists>pv p yr v. crossing_at 0 None 0 (zip [2020, 2030] [Some 1, Some (- 1)]) =
      Some (pv, Some p, yr, v) \<and> p + 1 \<le> 2026"
    by blast
  with first show ?thesis by blast
qed

text \<open>
  Three series on which the claim as it is stated fails. The single year 2020
  with the value -1.0: the crossing branch is taken in the first iteration with
  no previous year, the slope and the quotient are NaN, and no year is
  returned. The years in decreasing order (2030 with 1.25, then 2020 with
  -3.75): the quotient is -2.5, \<^verbatim>\<open>int()\<close> of it is -2 and its floor is -3,
  and the year returned, 2029, is not after the previous year 2030. The years
  2020 and 2030 with the values 0.0 and the negative double nearest to zero:
  the branch is taken with a previous point, the slope underflows to zero, and
  there is no quotient and no year.
\<close>

theorem crossing_invariant_counterexample:
  "crossing_at 0 None 0 (zip [2020] [Some (- 1)]) = Some (0, None, 2020, - 1) \<and>
   slope 0 None 2020 (- 1) = Inr None \<and>
   crossing_quotient 0 0 None = Inr None \<and>
   year_of_net_zero [Some (- 1)] [2020] 0 = Inl ValueError \<and>
   crossing_at 0 None 0 (zip [2030, 2020] [Some (5 / 4), Some (- (15 / 4))]) =
     Some (5 / 4, Some 2030, 2020, - (15 / 4)) \<and>
   slope (5 / 4) (Some 2030) 2020 (- (15 / 4)) = Inr (Some (Fin (1 / 2))) \<and>
   crossing_quotient 0 (5 / 4) (Some (Fin (1 / 2))) = Inr (Some (Fin (- (5 / 2)))) \<and>
   py_int (Some (Fin (- (5 / 2)))) = Inr (- 2) \<and>
   \<lfloor>- (5 / 2) :: real\<rfloor> = - 3 \<and>
   year_of_net_zero [Some (5 / 4), Some (- (15 / 4))] [2030, 2020] 0 = Inr (Year 2029) \<and>
   crossing_at 0 None 0 (zip [2020, 2030] [Some 0, Some (- (2 powi - 1074))]) =
     Some (0, Some 2020, 2030, - (2 powi - 1074)) \<and>
   slope 0 (Some 2020) 2030 (- (2 powi - 1074)) = Inr (Some (Fin 0)) \<and>
   crossing_quotient 0 0 (Some (Fin 0)) = Inl ZeroDivisionError \<and>
   year_of_net_zero [Some 0, Some (- (2 powi - 1074))] [2020, 2030] 0 =
     Inl ZeroDivisionError"
proof -
  have "crossing_at 0 None 0 (zip [2020] [Some (- 1)]) = Some (0, None, 2020, - 1) \<and>
   slope 0 None 2020 (- 1) = Inr None \<and>
   crossing_quotient 0 0 None = Inr None \<and>
   year_of_net_zero [Some (- 1)] [2020] 0 = Inl ValueError"
    by (simp add: year_of_net_zero_def crossing_no_prev_year slope_def crossing_quotient_def)
  moreover have "crossing_at 0 None 0 (zip [2030, 2020] [Some (5 / 4), Some (- (15 / 4))]) =
     Some (5 / 4, Some 2030, 2020, - (15 / 4))" by simp
  moreover have "py_int (Some (Fin (- (5 / 2)))) = Inr (- 2)" by (simp add: py_int_def)
  moreover have "\<lfloor>- (5 / 2) :: real\<rfloor> = - 3" by simp
  moreover have "crossing_at 0 None 0 (zip [2020, 2030] [Some 0, Some (- (2 powi - 1074))]) =
     Some (0, Some 2020, 2030, - (2 powi - 1074))" by simp
  moreover have "crossing_quotient 0 0 (Some (Fin 0)) = Inl ZeroDivisionError"
    by (simp add: crossing_quotient_def fdiv_def)
  ultimately show ?thesis using slope_backwards quot_backwards year_backwards slope_underflow year_underflow by blast
qed

text \<open>
  Claim C9, as amended. For a series whose years are in strictly increasing
  order, the result of \<^verbatim>\<open>year_of_net_zero\<close> is the outcome of the reference
  search over the pairs sorted by year when the reference computes its slope
  and its quotient in doubles, an exception of the code being an undefined
  outcome; and a year that is returned lies after the year of the last value at
  or above the threshold, which precedes the first value below it.
\<close>

theorem year_of_net_zero_refines_reference:
  assumes "sorted_wrt (<) years"
  shows "as_outcome (year_of_net_zero data years threshold) =
           spec_year_of_net_zero_double (zip years data) threshold \<and>
    (\<forall>r. year_of_net_zero data years threshold = Inr (Year r) \<longrightarrow>
       (\<exists>p y. last_above None threshold (zip years data) = Some p \<and>
          first_below threshold (zip years data) = Some y \<and> p < y \<and> p < r))"
proof (intro conjI)
  have sorted: "sorted_wrt (<) (map fst (zip years data))"
    using assms by (rule sorted_years_zip)
  then have "sorted (map fst (zip years data))"
    by (rule sorted_wrt_mono_rel [rotated]) simp
  then have "sort_key fst (zip years data) = zip years data"
    by (rule sort_key_id_if_sorted)
  moreover have "as_outcome (net_zero_loop 0 None threshold (zip years data)) =
      spec_search_double 0 None threshold (zip years data)"
    using sorted by (rule net_zero_loop_refines) simp_all
  ultimately show "as_outcome (year_of_net_zero data years threshold) =
           spec_year_of_net_zero_double (zip years data) threshold"
    by (simp add: year_of_net_zero_def spec_year_of_net_zero_double_def)
next
  show "\<forall>r. year_of_net_zero data years threshold = Inr (Year r) \<longrightarrow>
       (\<exists>p y. last_above None threshold (zip years data) = Some p \<and>
          first_below threshold (zip years data) = Some y \<and> p < y \<and> p < r)"
  proof (intro allI impI)
  fix r
  assume res: "year_of_net_zero data years threshold = Inr (Year r)"
  then obtain pv py yr v
    where at: "crossing_at 0 None threshold (zip years data) = Some (pv, py, yr, v)"
      and cr: "crossing pv py threshold yr v = Inr (Year r)"
    by (auto simp: year_of_net_zero_def net_zero_loop_crossing_at split: option.splits)
  from crossing_year_only_if [OF cr] obtain p x q
    where py: "py = Some p" and sl: "slope pv (Some p) yr v = Inr x"
      and qu: "crossing_quotient threshold pv x = Inr (Some (Fin q))"
    by blast
  have ord: "p < yr \<and> threshold \<le> pv \<and> v < threshold"
    using sorted_years_zip [OF assms] _ _ at [unfolded py] by (rule crossing_at_sorted) simp_all
  then have o: "threshold \<le> pv" "v < threshold" "p < yr" by simp_all
  have q: "0 \<le> q" using o sl qu by (rule quotient_nonneg)
  from cr py crossing_returns(2) [OF o sl qu] have r: "r = p + \<lfloor>q\<rfloor> + 1" by simp
  with q have "p < r" by simp
  moreover from at py have "first_below threshold (zip years data) = Some yr"
    and "last_above None threshold (zip years data) = Some p"
    by (auto dest: crossing_at_first_last)
  ultimately show "\<exists>p y. last_above None threshold (zip years data) = Some p \<and>
          first_below threshold (zip years data) = Some y \<and> p < y \<and> p < r"
    using o(3) by blast
  qed
qed

theorem year_of_net_zero_refines_reference_witness:
  "as_outcome (year_of_net_zero [Some 1, Some (- 1)] [2020, 2030] 0) =
     spec_year_of_net_zero_double (zip [2020, 2030] [Some 1, Some (- 1)]) 0 \<and>
   (\<exists>p y. last_above None 0 (zip [2020, 2030] [Some 1, Some (- 1)]) = Some p \<and>
      first_below 0 (zip [2020, 2030] [Some 1, Some (- 1)]) = Some y \<and> p < y \<and> p < 2026)"
proof -
  have "sorted_wrt (<) [2020, 2030 :: int]" by simp
  from year_of_net_zero_refines_reference [OF this, of "[Some 1, Some (- 1)]" 0]
  have eq: "as_outcome (year_of_net_zero [Some 1, Some (- 1)] [2020, 2030] 0) =
     spec_year_of_net_zero_double (zip [2020, 2030] [Some 1, Some (- 1)]) 0"
    and between: "\<forall>r. year_of_net_zero [Some 1, Some (- 1)] [2020, 2030] 0 = Inr (Year r) \<longrightarrow>
       (\<exists>p y. last_above None 0 (zip [2020, 2030] [Some 1, Some (- 1)]) = Some p \<and>
          first_below 0 (zip [2020, 2030] [Some 1, Some (- 1)]) = Some y \<and> p < y \<and> p < r)"
    by blast+
  from between year_unit eq show ?thesis by blast
qed

text \<open>
  Two series with the years 2020 and 2030 on which the claim as it is stated
  fails. With the values 0.3 and -0.7 the code returns 2023 and the reference
  search in exact arithmetic finds 2024. With the values 1.0 and \<open>-2 ^ -60\<close>
  the quotient rounds to 10.0 and the code returns 2031, a year after 2030,
  the year of the first value below the threshold.
\<close>

theorem year_of_net_zero_refines_reference_counterexample:
  "year_of_net_zero [Some (lit (3 / 10)), Some (- lit (7 / 10))] [2020, 2030] 0 =
     Inr (Year 2023) \<and>
   spec_year_of_net_zero (zip [2020, 2030] [Some (lit (3 / 10)), Some (- lit (7 / 10))]) 0 =
     Crossing 2024 \<and>
   year_of_net_zero [Some 1, Some (- (1 / 2 ^ 60))] [2020, 2030] 0 = Inr (Year 2031) \<and>
   first_below 0 (zip [2020, 2030] [Some 1, Some (- (1 / 2 ^ 60))]) = Some 2030"
proof -
  have "spec_year_of_net_zero (zip [2020, 2030] [Some (lit (3 / 10)), Some (- lit (7 / 10))]) 0 =
     Crossing 2024"
    by (simp add: spec_year_of_net_zero_def lit_three_tenths lit_seven_tenths)
  moreover have "first_below 0 (zip [2020, 2030] [Some 1, Some (- (1 / 2 ^ 60))]) = Some 2030"
    by simp
  ultimately show ?thesis using year_rounded year_late by blast
qed

section \<open>Properties of the annual change\<close>

lemma series_sub_columns:
  "series_sub (map (\<lambda>(k, r). (k, r j)) rs) (map (\<lambda>(k, r). (k, r i)) rs) =
   map (\<lambda>(k, r). (k, case (r j, r i) of (Some b, Some a) \<Rightarrow> Some (b - a) | _ \<Rightarrow> None)) rs"
  by (induction rs) (auto simp: series_sub_def)

lemma abs_ann_change_rows:
  assumes "i \<in> set (columns data)" and "j \<in> set (columns data)"
  shows "abs_ann_change data i j = Inr (map (\<lambda>(k, r). (k, row_change r i j)) (rows data))"
proof -
  have "series_div (map (\<lambda>(k, r). (k, case (r j, r i) of (Some b, Some a) \<Rightarrow> Some (b - a) | _ \<Rightarrow> None)) rs) (j - i) =
        map (\<lambda>(k, r). (k, row_change r i j)) rs" for rs :: "('a \<times> (int \<rightharpoonup> real)) list"
    by (induction rs) (auto simp: series_div_def row_change_def split: option.splits)
  with assms show ?thesis
    by (simp add: abs_ann_change_def getitem_def series_sub_columns)
qed

lemma fold_cells_other:
  "name \<notin> fst ` set fs \<Longrightarrow>
   fold (\<lambda>(n, cats) m. m((n, row, header, sub) \<mapsto> f cats)) fs m0 (name, row, header, sub) =
   m0 (name, row, header, sub)"
  by (induction fs arbitrary: m0) auto

lemma fold_cells_lookup:
  "distinct (map fst fs) \<Longrightarrow> (name, cats) \<in> set fs \<Longrightarrow>
   fold (\<lambda>(n, cats) m. m((n, row, header, sub) \<mapsto> f cats)) fs m0 (name, row, header, sub) =
   Some (f cats)"
proof (induction fs arbitrary: m0)
  case Nil
  then show ?case by simp
next
  case (Cons a fs)
  obtain n c where a: "a = (n, c)" by (cases a)
  show ?case
  proof (cases "(name, cats) = (n, c)")
    case True
    with Cons.prems a have "name \<notin> fst ` set fs" by auto
    then have "fold (\<lambda>(n, cats) m. m((n, row, header, sub) \<mapsto> f cats)) fs
        (m0((name, row, header, sub) \<mapsto> f cats)) (name, row, header, sub) =
        (m0((name, row, header, sub) \<mapsto> f cats)) (name, row, header, sub)"
      by (rule fold_cells_other)
    also have "\<dots> = Some (f cats)" by simp
    finally show ?thesis using True a by (simp del: fun_upd_apply)
  next
    case False
    with Cons.prems a have "(name, cats) \<in> set fs" and "distinct (map fst fs)" by auto
    with a Cons.IH show ?thesis by simp
  qed
qed

lemma stats_add_cell:
  assumes "distinct (map fst (filters st))" and "(name, cats) \<in> set (filters st)"
  shows "cells (stats_add series header row sub st) (name, row, header, sub) =
         Some (filter (\<lambda>(k, v). in_cohort (category st) cats k) series)"
  using assms by (simp add: stats_add_def fold_cells_lookup)

lemma count_row_change_cohort:
  "i \<noteq> j \<Longrightarrow>
   cell_count (filter (\<lambda>(k, v). P k) (map (\<lambda>(k, r). (k, row_change r i j)) rs)) =
   length (filter (\<lambda>(k, r). P k \<and> r i \<noteq> None \<and> r j \<noteq> None) rs)"
  by (induction rs) (auto simp: cell_count_def contributing_def row_change_def split: option.splits)

lemma cell_count_filter:
  "cell_count s = length (filter (\<lambda>(k, v). v \<noteq> Missing) s)"
  by (induction s) (auto simp: cell_count_def contributing_def)



text \<open>
  Claim C7. Where the value of a scenario at the start year or at the end year
  is missing, its annual change is missing, and not zero. In the cell that
  \<^verbatim>\<open>stats.add\<close> fills for a cohort, a missing change is not among the
  values the statistic is taken over, and the count of the cell is the number
  of its changes that are not missing: for two different years, the number of
  scenarios of the cohort with both values present.
\<close>

theorem missing_endpoint_is_missing:
  assumes "i \<in> set (columns data)" and "j \<in> set (columns data)"
    and "distinct (map fst (filters st))" and "(name, cats) \<in> set (filters st)"
  shows "\<exists>s cell. abs_ann_change data i j = Inr s \<and> map fst s = map fst (rows data) \<and>
     (\<forall>n < length (rows data).
        snd (rows data ! n) i = None \<or> snd (rows data ! n) j = None \<longrightarrow>
        snd (s ! n) = Missing \<and> snd (s ! n) \<noteq> Number 0) \<and>
     cells (stats_add s header_change row (Sub_change i j) st)
       (name, row, header_change, Sub_change i j) = Some cell \<and>
     Missing \<notin> set (contributing cell) \<and>
     cell_count cell = length (filter (\<lambda>(k, v). v \<noteq> Missing) cell) \<and>
     (i \<noteq> j \<longrightarrow>
        cell_count cell =
        length (filter (\<lambda>(k, r). in_cohort (category st) cats k \<and> r i \<noteq> None \<and> r j \<noteq> None)
                  (rows data)))"
proof -
  let ?s = "map (\<lambda>(k, r). (k, row_change r i j)) (rows data)"
  let ?cell = "filter (\<lambda>(k, v). in_cohort (category st) cats k) ?s"
  have "abs_ann_change data i j = Inr ?s" using assms(1,2) by (rule abs_ann_change_rows)
  moreover have "map fst ?s = map fst (rows data)" by (simp add: case_prod_unfold comp_def)
  moreover have "\<forall>n < length (rows data).
        snd (rows data ! n) i = None \<or> snd (rows data ! n) j = None \<longrightarrow>
        snd (?s ! n) = Missing \<and> snd (?s ! n) \<noteq> Number 0"
    by (auto simp: row_change_def case_prod_unfold split: option.splits)
  moreover have "cells (stats_add ?s header_change row (Sub_change i j) st)
       (name, row, header_change, Sub_change i j) = Some ?cell"
    using assms(3,4) by (rule stats_add_cell)
  moreover have "Missing \<notin> set (contributing ?cell)" by (simp add: contributing_def)
  moreover have "cell_count ?cell = length (filter (\<lambda>(k, v). v \<noteq> Missing) ?cell)"
    by (rule cell_count_filter)
  moreover have "i \<noteq> j \<longrightarrow> cell_count ?cell =
        length (filter (\<lambda>(k, r). in_cohort (category st) cats k \<and> r i \<noteq> None \<and> r j \<noteq> None)
                  (rows data))"
    by (simp add: count_row_change_cohort)
  ultimately show ?thesis by blast
qed

theorem missing_endpoint_is_missing_witness:
  "\<exists>s cell. abs_ann_change two_scenarios 2010 2030 = Inr s \<and>
     snd (s ! 1) = Missing \<and>
     cells (stats_add s ''Absolute annual change (GtCO2)'' ''Total CO2 (net)''
              (Sub_change 2010 2030) two_statistics)
       (''below 1.5'', ''Total CO2 (net)'', ''Absolute annual change (GtCO2)'',
        Sub_change 2010 2030) = Some cell \<and>
     cell_count cell = 1"
proof -
  have "2010 \<in> set (columns two_scenarios)" and "2030 \<in> set (columns two_scenarios)"
    and "distinct (map fst (filters two_statistics))"
    and "(''below 1.5'', [''Below 1.5C'']) \<in> set (filters two_statistics)"
    by (simp_all add: two_scenarios_def two_statistics_def new_statistics_def notebook_filters_def)
  from missing_endpoint_is_missing [OF this,
      of "''Absolute annual change (GtCO2)''" "''Total CO2 (net)''"]
  obtain s cell where s: "abs_ann_change two_scenarios 2010 2030 = Inr s"
    and m: "\<forall>n < length (rows two_scenarios).
        snd (rows two_scenarios ! n) 2010 = None \<or> snd (rows two_scenarios ! n) 2030 = None \<longrightarrow>
        snd (s ! n) = Missing \<and> snd (s ! n) \<noteq> Number 0"
    and cell: "cells (stats_add s ''Absolute annual change (GtCO2)'' ''Total CO2 (net)''
              (Sub_change 2010 2030) two_statistics)
       (''below 1.5'', ''Total CO2 (net)'', ''Absolute annual change (GtCO2)'',
        Sub_change 2010 2030) = Some cell"
    and c: "(2010::int) \<noteq> 2030 \<longrightarrow>
        cell_count cell =
        length (filter (\<lambda>(k, r). in_cohort (category two_statistics) [''Below 1.5C''] k \<and>
                  r 2010 \<noteq> None \<and> r 2030 \<noteq> None) (rows two_scenarios))"
    by blast
  from m have "snd (s ! 1) = Missing" by (simp add: two_scenarios_def)
  moreover from c have "cell_count cell = 1"
    by (simp add: two_scenarios_def two_statistics_def new_statistics_def in_cohort_def)
  ultimately show ?thesis using s cell by blast
qed

lemma notebook_range: "range_of \<lparr>center = ''median'', fullrange = None, interquartile = Some True,
                custom_format = ''{:.1f}''\<rparr> = Inr Interquartile_range"
  by (simp add: range_of_def)

lemma six_cell:
  "cells six_statistics (''below 1.5'', ''Total CO2 (net)'', ''Timing of global zero'', Sub_label ''year'')
     = Some six_scenarios"
  by (simp add: six_statistics_def stats_add_def new_statistics_def notebook_filters_def
      in_cohort_def)

lemma six_count: "cell_count six_scenarios = 6"
  by (simp add: six_scenarios_def cell_count_def contributing_def)

text \<open>
  Claim C3, as amended. Whatever the number of scenarios that contribute to a
  cell, as long as there are two or more, the summary table the notebook
  produces shows the median and the interquartile range of the cell, formatted
  by \<^verbatim>\<open>'{:.1f}'\<close>. The number 7 plays no part in the table: the full range
  for cells with fewer than 7 scenarios is not produced by the program.
\<close>

theorem summary_shows_interquartile:
  assumes "cells st key = Some xs" and "2 \<le> cell_count xs"
  shows "\<exists>t. notebook_summarize st = Inr t \<and>
           t key = Some (Center_and_range ''median'' Interquartile_range ''{:.1f}'')"
  using assms by (simp add: notebook_summarize_def summarize_def notebook_range format_cell_def)

theorem summary_shows_interquartile_witness:
  "\<exists>t. notebook_summarize six_statistics = Inr t \<and>
     t (''below 1.5'', ''Total CO2 (net)'', ''Timing of global zero'', Sub_label ''year'') =
       Some (Center_and_range ''median'' Interquartile_range ''{:.1f}'')"
  by (rule summary_shows_interquartile [OF six_cell]) (simp add: six_count)

text \<open>
  A cell with exactly six contributing scenarios: the summary shows the median
  with the interquartile range, not with the full range.
\<close>

theorem summary_six_scenarios_counterexample:
  "cell_count six_scenarios = 6 \<and>
   cells six_statistics
     (''below 1.5'', ''Total CO2 (net)'', ''Timing of global zero'', Sub_label ''year'') =
     Some six_scenarios \<and>
   then_do (notebook_summarize six_statistics)
     (\<lambda>t. Inr (t (''below 1.5'', ''Total CO2 (net)'', ''Timing of global zero'', Sub_label ''year''))) =
     Inr (Some (Center_and_range ''median'' Interquartile_range ''{:.1f}'')) \<and>
   Center_and_range ''median'' Interquartile_range ''{:.1f}'' \<noteq>
     Center_and_range ''median'' Full_range ''{:.1f}''"
  by (simp add: six_cell six_count notebook_summarize_def summarize_def notebook_range
      format_cell_def then_do_def)

lemma sample_getitems: "getitems sample_table settings_years = Inr sample_table"
  by (simp add: getitems_def sample_table_def settings_years_def)

lemma sample_changes:
  "\<exists>s. add_changes sample_table row h settings_compare_years st = Inr s"
  by (simp add: settings_compare_years_def abs_ann_change_def getitem_def sample_table_def)

lemma sample_netzero:
  "apply_year_of_net_zero (columns sample_table) (rows sample_table) = Inr [(''scenario'', Year 2026)]"
  using crossing_sample by (simp add: sample_table_def year_of_net_zero_def)

lemma sample_add: "\<exists>s. add_with_settings sample_table row nz st = Inr s"
proof -
  obtain s where "add_changes sample_table row ''Absolute annual change (GtCO2)''
      settings_compare_years
      (stats_add_frame sample_table ''Annual emissions/sequestration (GtCO2)'' row st) = Inr s"
    using sample_changes by blast
  then show ?thesis
    by (simp add: add_with_settings_def add_statistics_def sample_getitems sample_netzero)
qed

lemma sample_run: "\<exists>nb. run sample_inputs before = Inr nb"
proof -
  let ?s0 = "new_statistics (df_category sample_inputs) (cats_15_no_lo sample_inputs)"
  obtain s1 where s1: "add_with_settings sample_table ''Total CO2 (net)'' True ?s0 = Inr s1"
    using sample_add by blast
  obtain s2 where s2: "add_with_settings sample_table
      ''CO2 from fossil fuels and industry (gross)'' False s1 = Inr s2"
    using sample_add by blast
  obtain s3 where s3: "add_with_settings sample_table
      ''CO2 from fossil fuels and industry (net)'' False s2 = Inr s3"
    using sample_add by blast
  obtain s4 where s4: "add_with_settings sample_table ''CO2 from AFOLU'' False s3 = Inr s4"
    using sample_add by blast
  obtain s5 where s5: "add_with_settings sample_table
      ''Bioenergy combined with carbon capture and storage (BECCS)'' False s4 = Inr s5"
    using sample_add by blast
  obtain s6 where s6: "add_with_settings sample_table ''Kyoto GHG (AR4, GtCO2e)'' True s5 = Inr s6"
    using sample_add by blast
  have tables: "co2 sample_inputs = sample_table" "co2_ene_ind_gross sample_inputs = sample_table"
    "co2_ene_ind sample_inputs = sample_table" "co2_afolu sample_inputs = sample_table"
    "ccs_bio sample_inputs = sample_table" "ghg sample_inputs = sample_table"
    by (simp_all add: sample_inputs_def)
  show ?thesis
    by (simp add: run_def then_do_def tables s1 s2 s3 s4 s5 s6 notebook_summarize_def
        summarize_def notebook_range)
qed

text \<open>
  Claim C10. The output of a run is determined by the input tables: it does
  not depend on what an earlier run has left in the session, and a second run
  on the same inputs, started in the state the first one ended in, ends in
  that same state, summary table included.
\<close>

theorem run_idempotent:
  "run inp before = run inp before' \<and> then_do (run inp before) (run inp) = run inp before"
proof
  show same: "run inp before = run inp before'" for before before' :: "'a notebook"
    by (simp add: run_def then_do_def split: sum.splits)
  show "then_do (run inp before) (run inp) = run inp before"
  proof (cases "run inp before")
    case (Inl e)
    then show ?thesis by (simp add: then_do_def)
  next
    case (Inr after)
    then show ?thesis using same [of after before] by (simp add: then_do_def)
  qed
qed

theorem run_idempotent_witness:
  "\<exists>nb. run sample_inputs \<lparr>stats = new_statistics Map.empty [], summary = None\<rparr> = Inr nb \<and>
     run sample_inputs nb = Inr nb"
proof -
  obtain nb where nb: "run sample_inputs \<lparr>stats = new_statistics Map.empty [], summary = None\<rparr> = Inr nb"
    using sample_run by blast
  with run_idempotent [of sample_inputs "\<lparr>stats = new_statistics Map.empty [], summary = None\<rparr>"]
  have "run sample_inputs nb = Inr nb" by (simp add: then_do_def)
  with nb show ?thesis by blast
qed

end
